theory Spec2Isabelle
  imports Main "HOL-Library.AList"
begin

section \<open>Python values, exceptions and user code\<close>

text \<open>
  The dependency-injection container of \<^verbatim>\<open>lab7.py\<close> stores and returns arbitrary
  Python objects.  The model keeps the values the container inspects: strings (a
  parameter value that starts with \<^verbatim>\<open>@\<close> is a back-reference), and objects, which
  carry the name of their class and their attributes.  Instances are values: the only
  mutation the container performs on an instance, \<^verbatim>\<open>instance.set_logger(logger)\<close>,
  happens before the instance is returned or stored anywhere, so the updated value is
  passed on instead.
\<close>

datatype val =
    PyNone
  | PyStr string
  | PyInt int
  | PyObj string "(string \<times> val) list"

text \<open>A Python \<^verbatim>\<open>dict\<close> with string keys, in insertion order.\<close>

type_synonym kwargs = "(string \<times> val) list"

text \<open>
  Exceptions are values.  The handlers of the container tell \<^verbatim>\<open>ValueError\<close>,
  \<^verbatim>\<open>RuntimeError\<close> and \<^verbatim>\<open>KeyError\<close> from the rest, and an
  \<^verbatim>\<open>except\<close> clause catches the subclasses of the class it names.  So
  \<open>ValueError\<close>, \<open>RuntimeError\<close> and \<open>KeyError\<close> stand for an exception of
  that class or of one of its subclasses (a \<^verbatim>\<open>RecursionError\<close> or a
  \<^verbatim>\<open>NotImplementedError\<close> is a \<open>RuntimeError\<close>, a \<^verbatim>\<open>UnicodeError\<close> is
  a \<open>ValueError\<close>), and \<open>OtherError\<close>, with the name of the class, for every other
  subclass of \<^verbatim>\<open>Exception\<close>.  The string is what \<^verbatim>\<open>str(e)\<close> returns.
\<close>

datatype exn =
    ValueError string
  | RuntimeError string
  | KeyError string
  | OtherError string string

fun str :: "exn \<Rightarrow> string" where
  "str (ValueError m) = m"
| "str (RuntimeError m) = m"
| "str (KeyError m) = m"
| "str (OtherError c m) = m"

text \<open>
  A service identity is the type object used as the key of the registry; it is
  represented by its \<^verbatim>\<open>__name__\<close>, which is all the container reads from it.
\<close>

type_synonym ident = string

text \<open>
  A class as the container uses it: calling it with keyword arguments returns an
  instance or raises, and its instances may have a \<^verbatim>\<open>set_logger\<close> method
  (\<open>None\<close>: \<^verbatim>\<open>hasattr(instance, 'set_logger')\<close> is false).  The method returns the
  instance as it has left it, and the exception it raised, if any.  The code of a
  constructor, a factory or a setter is a function of its arguments: it does not call
  the injector, and it keeps no state of its own between calls.
\<close>

record pyclass =
  construct :: "kwargs \<Rightarrow> exn + val"
  set_logger :: "(val \<Rightarrow> val \<Rightarrow> val \<times> exn option) option"

text \<open>What can be passed to \<^verbatim>\<open>register\<close> as \<^verbatim>\<open>implementation\<close>.\<close>

datatype py_implementation =
    PyType pyclass
  | PyFunction "kwargs \<Rightarrow> exn + val"
  | PyNotCallable val

fun isinstance_type :: "py_implementation \<Rightarrow> bool" where
  "isinstance_type (PyType c) = True"
| "isinstance_type (PyFunction f) = False"
| "isinstance_type (PyNotCallable v) = False"

fun callable :: "py_implementation \<Rightarrow> bool" where
  "callable (PyType c) = True"
| "callable (PyFunction f) = True"
| "callable (PyNotCallable v) = False"

section \<open>The injector\<close>

text \<open>The constants of class \<^verbatim>\<open>LifeStyle\<close>.\<close>

definition PerRequest :: string where
  "PerRequest = ''PerRequest''"

definition Scoped :: string where
  "Scoped = ''Scoped''"

definition Singleton :: string where
  "Singleton = ''Singleton''"

text \<open>
  A registration is the dictionary built by \<^verbatim>\<open>register\<close>: the keys
  \<^verbatim>\<open>'life_style'\<close> and \<^verbatim>\<open>'params'\<close> are always present, and one of
  \<^verbatim>\<open>'factory'\<close> and \<^verbatim>\<open>'implementation'\<close>.
\<close>

record registration =
  life_style :: string
  params :: kwargs
  factory :: "(kwargs \<Rightarrow> exn + val) option"
  implementation :: "pyclass option"

text \<open>The four fields set by \<^verbatim>\<open>Injector.__init__\<close>.\<close>

record injector =
  registrations :: "ident \<rightharpoonup> registration"
  singleton_instances :: "ident \<rightharpoonup> val"
  scoped_instances :: "ident \<rightharpoonup> val"
  in_scope :: bool

definition init :: injector where
  "init = \<lparr>registrations = Map.empty, singleton_instances = Map.empty,
           scoped_instances = Map.empty, in_scope = False\<rparr>"

text \<open>
  A method of the injector returns a value or raises, and leaves the injector in a new
  state.  \<open>None\<close> is a call that does not return; it is there for the body of a
  \<^verbatim>\<open>with\<close> block and for the lookup that the functions below take as a
  parameter.  \<^verbatim>\<open>get_instance\<close> itself always returns or raises.
\<close>

type_synonym 'a outcome = "((exn + 'a) \<times> injector) option"

subsection \<open>\<^verbatim>\<open>register\<close>\<close>

text \<open>
  The value stored at \<^verbatim>\<open>'factory'\<close> or at \<^verbatim>\<open>'implementation'\<close>: the
  argument itself, as a function or as a class.
\<close>

fun as_factory :: "py_implementation \<Rightarrow> (kwargs \<Rightarrow> exn + val) option" where
  "as_factory (PyFunction f) = Some f"
| "as_factory impl = None"

fun as_class :: "py_implementation \<Rightarrow> pyclass option" where
  "as_class (PyType c) = Some c"
| "as_class impl = None"

definition register ::
  "injector \<Rightarrow> ident \<Rightarrow> py_implementation \<Rightarrow> string \<Rightarrow> kwargs option \<Rightarrow> exn + injector" where
  "register s interface_type impl lifestyle params_arg =
     (let ps = (case params_arg of None \<Rightarrow> [] | Some p \<Rightarrow> p) in
      if \<not> (isinstance_type impl \<or> callable impl)
      then Inl (ValueError ''Implementation must be a class or callable factory method'')
      else
        let reg = \<lparr>life_style = lifestyle, params = ps, factory = None, implementation = None\<rparr>;
            reg' = (if callable impl \<and> \<not> isinstance_type impl
                    then reg\<lparr>factory := as_factory impl\<rparr>
                    else reg\<lparr>implementation := as_class impl\<rparr>)
        in Inr (s\<lparr>registrations := (registrations s)(interface_type \<mapsto> reg')\<rparr>))"

subsection \<open>\<^verbatim>\<open>_resolve_constructor_params\<close>\<close>

text \<open>
  \<^verbatim>\<open>isinstance(param_value, str) and param_value.startswith('@')\<close>, and the name
  \<^verbatim>\<open>param_value[1:]\<close> that follows the sigil.
\<close>

fun is_reference :: "val \<Rightarrow> bool" where
  "is_reference (PyStr (c # cs)) = (c = CHR ''@'')"
| "is_reference v = False"

fun reference_name :: "val \<Rightarrow> string" where
  "reference_name (PyStr cs) = drop 1 cs"
| "reference_name v = []"

definition dependency_not_found :: "string \<Rightarrow> exn" where
  "dependency_not_found name = ValueError (''Dependency '' @ name @ '' not found'')"

text \<open>
  The loop over \<^verbatim>\<open>params.items()\<close>, with \<^verbatim>\<open>resolved_params\<close> as accumulator.
  \<open>G\<close> is the module namespace \<^verbatim>\<open>globals()\<close>, from names to the identities they
  are bound to (a name bound to an object without \<^verbatim>\<open>__name__\<close>, which cannot be
  looked up, is not modelled), and \<open>gi\<close> is \<^verbatim>\<open>self.get_instance\<close>.  A
  \<^verbatim>\<open>KeyError\<close> from either call inside the \<^verbatim>\<open>try\<close> becomes the
  \<^verbatim>\<open>ValueError\<close>; any other exception of \<^verbatim>\<open>get_instance\<close> passes through.
\<close>

fun resolve_loop ::
  "(string \<rightharpoonup> ident) \<Rightarrow> (injector \<Rightarrow> ident \<Rightarrow> val outcome) \<Rightarrow> injector \<Rightarrow> kwargs \<Rightarrow> kwargs
     \<Rightarrow> kwargs outcome" where
  "resolve_loop G gi s [] resolved_params = Some (Inr resolved_params, s)"
| "resolve_loop G gi s ((param_name, param_value) # rest) resolved_params =
     (if is_reference param_value then
        (case G (reference_name param_value) of
           None \<Rightarrow> Some (Inl (dependency_not_found (reference_name param_value)), s)
         | Some dependency_interface \<Rightarrow>
             (case gi s dependency_interface of
                None \<Rightarrow> None
              | Some (Inl (KeyError m), s') \<Rightarrow>
                  Some (Inl (dependency_not_found (reference_name param_value)), s')
              | Some (Inl e, s') \<Rightarrow> Some (Inl e, s')
              | Some (Inr v, s') \<Rightarrow>
                  resolve_loop G gi s' rest (AList.update param_name v resolved_params)))
      else resolve_loop G gi s rest (AList.update param_name param_value resolved_params))"

definition resolve_constructor_params ::
  "(string \<rightharpoonup> ident) \<Rightarrow> (injector \<Rightarrow> ident \<Rightarrow> val outcome) \<Rightarrow> injector \<Rightarrow> kwargs
     \<Rightarrow> kwargs outcome" where
  "resolve_constructor_params G gi s ps = resolve_loop G gi s ps []"

subsection \<open>\<^verbatim>\<open>_create_instance\<close>\<close>

text \<open>The identity \<^verbatim>\<open>ILogger\<close> that the setter injection looks up.\<close>

definition ILogger :: ident where
  "ILogger = ''ILogger''"

text \<open>
  The handler \<^verbatim>\<open>except Exception as e: raise RuntimeError(f"Failed to create
  instance of {interface_type.__name__}: {str(e)}")\<close>, which closes the \<^verbatim>\<open>try\<close>
  block of \<^verbatim>\<open>_create_instance\<close> and of \<^verbatim>\<open>get_instance\<close> alike.
\<close>

definition creation_failure :: "ident \<Rightarrow> exn \<Rightarrow> exn" where
  "creation_failure interface_type e =
     RuntimeError (''Failed to create instance of '' @ interface_type @ '': '' @ str e)"

fun reraise_failed :: "ident \<Rightarrow> 'a outcome \<Rightarrow> 'a outcome" where
  "reraise_failed interface_type None = None"
| "reraise_failed interface_type (Some (Inl e, s)) = Some (Inl (creation_failure interface_type e), s)"
| "reraise_failed interface_type (Some (Inr v, s)) = Some (Inr v, s)"

text \<open>\<^verbatim>\<open>except (ValueError, RuntimeError): pass\<close>\<close>

fun swallowed :: "exn \<Rightarrow> bool" where
  "swallowed (ValueError m) = True"
| "swallowed (RuntimeError m) = True"
| "swallowed e = False"

text \<open>
  The setter injection: the lookup of \<^verbatim>\<open>ILogger\<close> and the call of
  \<^verbatim>\<open>instance.set_logger(logger)\<close> are both inside the inner \<^verbatim>\<open>try\<close>.
\<close>

definition inject_logger ::
  "(injector \<Rightarrow> ident \<Rightarrow> val outcome) \<Rightarrow> injector \<Rightarrow> (val \<Rightarrow> val \<Rightarrow> val \<times> exn option) \<Rightarrow> val
     \<Rightarrow> val outcome" where
  "inject_logger gi s setter instance =
     (case gi s ILogger of
        None \<Rightarrow> None
      | Some (Inl e, s') \<Rightarrow> if swallowed e then Some (Inr instance, s') else Some (Inl e, s')
      | Some (Inr logger, s') \<Rightarrow>
          (case setter instance logger of
             (instance', None) \<Rightarrow> Some (Inr instance', s')
           | (instance', Some e) \<Rightarrow>
               if swallowed e then Some (Inr instance', s') else Some (Inl e, s')))"

text \<open>
  The body of the \<^verbatim>\<open>try\<close> block of \<^verbatim>\<open>_create_instance\<close>.  A registration
  without \<^verbatim>\<open>'factory'\<close> is read at \<^verbatim>\<open>'implementation'\<close>; \<^verbatim>\<open>register\<close>
  always stores one of the two, and the \<^verbatim>\<open>KeyError\<close> of a registration with
  neither is given the name of the key as its text.
\<close>

definition create_body ::
  "(string \<rightharpoonup> ident) \<Rightarrow> (injector \<Rightarrow> ident \<Rightarrow> val outcome) \<Rightarrow> injector \<Rightarrow> registration
     \<Rightarrow> val outcome" where
  "create_body G gi s reg =
     (case factory reg of
        Some f \<Rightarrow>
          (case f (params reg) of
             Inl e \<Rightarrow> Some (Inl e, s)
           | Inr v \<Rightarrow> Some (Inr v, s))
      | None \<Rightarrow>
          (case implementation reg of
             None \<Rightarrow> Some (Inl (KeyError ''implementation''), s)
           | Some c \<Rightarrow>
               (case resolve_constructor_params G gi s (params reg) of
                  None \<Rightarrow> None
                | Some (Inl e, s1) \<Rightarrow> Some (Inl e, s1)
                | Some (Inr constructor_params, s1) \<Rightarrow>
                    (case construct c constructor_params of
                       Inl e \<Rightarrow> Some (Inl e, s1)
                     | Inr instance \<Rightarrow>
                         (case set_logger c of
                            None \<Rightarrow> Some (Inr instance, s1)
                          | Some setter \<Rightarrow> inject_logger gi s1 setter instance)))))"

text \<open>
  \<^verbatim>\<open>registration = self._registrations[interface_type]\<close> precedes the \<^verbatim>\<open>try\<close>
  block, so its \<^verbatim>\<open>KeyError\<close> is not wrapped; \<^verbatim>\<open>get_instance\<close> never calls
  \<^verbatim>\<open>_create_instance\<close> on an identity without registration.
\<close>

definition create_instance ::
  "(string \<rightharpoonup> ident) \<Rightarrow> (injector \<Rightarrow> ident \<Rightarrow> val outcome) \<Rightarrow> injector \<Rightarrow> ident \<Rightarrow> val outcome" where
  "create_instance G gi s interface_type =
     (case registrations s interface_type of
        None \<Rightarrow> Some (Inl (KeyError interface_type), s)
      | Some reg \<Rightarrow> reraise_failed interface_type (create_body G gi s reg))"

subsection \<open>\<^verbatim>\<open>get_instance\<close>\<close>

definition no_registration :: "ident \<Rightarrow> exn" where
  "no_registration interface_type = ValueError (''No registration found for '' @ interface_type)"

definition out_of_scope :: exn where
  "out_of_scope = RuntimeError ''Cannot get scoped instance outside of a scope''"

text \<open>The body of the \<^verbatim>\<open>try\<close> block of \<^verbatim>\<open>get_instance\<close>: the dispatch on the life style.\<close>

definition dispatch ::
  "(string \<rightharpoonup> ident) \<Rightarrow> (injector \<Rightarrow> ident \<Rightarrow> val outcome) \<Rightarrow> injector \<Rightarrow> ident \<Rightarrow> string
     \<Rightarrow> val outcome" where
  "dispatch G gi s interface_type lifestyle =
     (if lifestyle = Singleton then
        (case singleton_instances s interface_type of
           Some v \<Rightarrow> Some (Inr v, s)
         | None \<Rightarrow>
             (case create_instance G gi s interface_type of
                None \<Rightarrow> None
              | Some (Inl e, s') \<Rightarrow> Some (Inl e, s')
              | Some (Inr v, s') \<Rightarrow>
                  Some (Inr v, s'\<lparr>singleton_instances := (singleton_instances s')(interface_type \<mapsto> v)\<rparr>)))
      else if lifestyle = Scoped then
        (if \<not> in_scope s then Some (Inl out_of_scope, s)
         else
           (case scoped_instances s interface_type of
              Some v \<Rightarrow> Some (Inr v, s)
            | None \<Rightarrow>
                (case create_instance G gi s interface_type of
                   None \<Rightarrow> None
                 | Some (Inl e, s') \<Rightarrow> Some (Inl e, s')
                 | Some (Inr v, s') \<Rightarrow>
                     Some (Inr v, s'\<lparr>scoped_instances := (scoped_instances s')(interface_type \<mapsto> v)\<rparr>))))
      else create_instance G gi s interface_type)"

definition get_instance_body ::
  "(string \<rightharpoonup> ident) \<Rightarrow> (injector \<Rightarrow> ident \<Rightarrow> val outcome) \<Rightarrow> injector \<Rightarrow> ident \<Rightarrow> val outcome" where
  "get_instance_body G gi s interface_type =
     (case registrations s interface_type of
        None \<Rightarrow> Some (Inl (no_registration interface_type), s)
      | Some reg \<Rightarrow> reraise_failed interface_type (dispatch G gi s interface_type (life_style reg)))"

text \<open>
  \<^verbatim>\<open>get_instance\<close> calls itself through \<^verbatim>\<open>_create_instance\<close> and
  \<^verbatim>\<open>_resolve_constructor_params\<close>, and a cycle of dependencies makes the recursion
  endless; the interpreter ends it with a \<^verbatim>\<open>RecursionError\<close>, a subclass of
  \<^verbatim>\<open>RuntimeError\<close>, once the calls are nested deeper than its recursion limit.
  The first argument after the namespace is the number of nested calls of
  \<^verbatim>\<open>get_instance\<close> that the limit still allows: the call that exceeds it raises
  and changes nothing.  The interpreter may raise at one of the calls in between
  instead, all of which are inside a \<^verbatim>\<open>try\<close> block whose handler raises a
  \<^verbatim>\<open>RuntimeError\<close> in its turn; the model raises at the call of
  \<^verbatim>\<open>get_instance\<close>.  The text of the error varies with the interpreter.
\<close>

definition recursion_error :: exn where
  "recursion_error = RuntimeError ''maximum recursion depth exceeded''"

primrec get_instance :: "(string \<rightharpoonup> ident) \<Rightarrow> nat \<Rightarrow> injector \<Rightarrow> ident \<Rightarrow> val outcome" where
  "get_instance G 0 = (\<lambda>s interface_type. Some (Inl recursion_error, s))"
| "get_instance G (Suc n) = get_instance_body G (get_instance G n)"

subsection \<open>\<^verbatim>\<open>Scope\<close>\<close>

definition scope_enter :: "injector \<Rightarrow> injector" where
  "scope_enter s = s\<lparr>in_scope := True, scoped_instances := Map.empty\<rparr>"

definition scope_exit :: "injector \<Rightarrow> injector" where
  "scope_exit s = s\<lparr>in_scope := False, scoped_instances := Map.empty\<rparr>"

text \<open>
  \<^verbatim>\<open>with injector.scope(): body\<close>: \<^verbatim>\<open>__exit__\<close> runs when the body returns and
  when it raises, and returns \<^verbatim>\<open>None\<close>, so the exception of the body propagates.
\<close>

definition with_scope :: "(injector \<Rightarrow> 'a outcome) \<Rightarrow> injector \<Rightarrow> 'a outcome" where
  "with_scope body s =
     (case body (scope_enter s) of
        None \<Rightarrow> None
      | Some (r, s') \<Rightarrow> Some (r, scope_exit s'))"

section \<open>The services and configurations of the module\<close>

text \<open>
  The classes of the module as the container sees them.  A class without
  \<^verbatim>\<open>__init__\<close> takes no arguments; the text of a \<^verbatim>\<open>TypeError\<close> is
  abridged.
\<close>

definition type_error :: "string \<Rightarrow> exn" where
  "type_error m = OtherError ''TypeError'' m"

definition no_init :: "string \<Rightarrow> kwargs \<Rightarrow> exn + val" where
  "no_init name kw =
     (if kw = [] then Inr (PyObj name [])
      else Inl (type_error (name @ ''() takes no arguments'')))"

definition keyword :: "kwargs \<Rightarrow> string \<Rightarrow> val \<Rightarrow> val" where
  "keyword kw name dflt = (case map_of kw name of None \<Rightarrow> dflt | Some v \<Rightarrow> v)"

definition unexpected :: "string list \<Rightarrow> kwargs \<Rightarrow> string list" where
  "unexpected names kw = filter (\<lambda>k. k \<notin> set names) (map fst kw)"

definition assign_logger :: "val \<Rightarrow> val \<Rightarrow> val \<times> exn option" where
  "assign_logger instance logger =
     (case instance of
        PyObj c attrs \<Rightarrow> (PyObj c (AList.update ''_logger'' logger attrs), None)
      | v \<Rightarrow> (v, None))"

definition ConsoleLogger :: pyclass where
  "ConsoleLogger = \<lparr>construct = no_init ''ConsoleLogger'', set_logger = None\<rparr>"

definition FileLogger_init :: "kwargs \<Rightarrow> exn + val" where
  "FileLogger_init kw =
     (if unexpected [''filename''] kw \<noteq> []
      then Inl (type_error ''FileLogger.__init__() got an unexpected keyword argument'')
      else Inr (PyObj ''FileLogger'' [(''filename'', keyword kw ''filename'' (PyStr ''app.log''))]))"

definition FileLogger :: pyclass where
  "FileLogger = \<lparr>construct = FileLogger_init, set_logger = None\<rparr>"

definition SqlDatabase_init :: "kwargs \<Rightarrow> exn + val" where
  "SqlDatabase_init kw =
     (if unexpected [''connection_string'', ''logger''] kw \<noteq> []
      then Inl (type_error ''SqlDatabase.__init__() got an unexpected keyword argument'')
      else
        (case map_of kw ''connection_string'' of
           None \<Rightarrow> Inl (type_error ''SqlDatabase.__init__() missing 1 required positional argument'')
         | Some cs \<Rightarrow>
             Inr (PyObj ''SqlDatabase''
                    [(''connection_string'', cs), (''_logger'', keyword kw ''logger'' PyNone)])))"

definition SqlDatabase :: pyclass where
  "SqlDatabase = \<lparr>construct = SqlDatabase_init, set_logger = Some assign_logger\<rparr>"

definition MockDatabase :: pyclass where
  "MockDatabase = \<lparr>construct = no_init ''MockDatabase'', set_logger = None\<rparr>"

definition SmtpEmailService_init :: "kwargs \<Rightarrow> exn + val" where
  "SmtpEmailService_init kw =
     (if unexpected [''smtp_server'', ''smtp_port'', ''logger''] kw \<noteq> []
      then Inl (type_error ''SmtpEmailService.__init__() got an unexpected keyword argument'')
      else
        (case (map_of kw ''smtp_server'', map_of kw ''smtp_port'') of
           (Some server, Some port) \<Rightarrow>
             Inr (PyObj ''SmtpEmailService''
                    [(''smtp_server'', server), (''smtp_port'', port),
                     (''_logger'', keyword kw ''logger'' PyNone)])
         | _ \<Rightarrow> Inl (type_error ''SmtpEmailService.__init__() missing required positional arguments'')))"

definition SmtpEmailService :: pyclass where
  "SmtpEmailService = \<lparr>construct = SmtpEmailService_init, set_logger = Some assign_logger\<rparr>"

definition MockEmailService :: pyclass where
  "MockEmailService = \<lparr>construct = no_init ''MockEmailService'', set_logger = None\<rparr>"

definition create_file_logger :: "kwargs \<Rightarrow> exn + val" where
  "create_file_logger kw =
     (if kw = [] then construct FileLogger [(''filename'', PyStr ''custom.log'')]
      else Inl (type_error ''create_file_logger() got an unexpected keyword argument''))"

text \<open>
  The namespace of the module: the names it imports, its type variable and the classes
  and functions it defines, which \<^verbatim>\<open>globals()\<close> binds to objects whose
  \<^verbatim>\<open>__name__\<close> is that name (for the names of \<^verbatim>\<open>typing\<close>, from Python 3.10
  on).  The names with two underscores that the interpreter adds, such as
  \<^verbatim>\<open>__name__\<close> and \<^verbatim>\<open>__doc__\<close>, are bound to strings and other objects that
  are no identities, and are left out.
\<close>

definition module_globals :: "string \<rightharpoonup> ident" where
  "module_globals name =
     (if name \<in> set [''ABC'', ''abstractmethod'',
                      ''Type'', ''Dict'', ''Any'', ''Callable'', ''Optional'', ''TypeVar'', ''T'',
                      ''LifeStyle'', ''Injector'', ''Scope'',
                      ''ILogger'', ''IDatabase'', ''IEmailService'',
                      ''ConsoleLogger'', ''FileLogger'', ''SqlDatabase'', ''MockDatabase'',
                      ''SmtpEmailService'', ''MockEmailService'',
                      ''create_file_logger'', ''configure_dev'', ''configure_prod'', ''demo'']
      then Some name else None)"

text \<open>A sequence of calls of \<^verbatim>\<open>register\<close>; the first that raises ends it.\<close>

fun register_all ::
  "injector \<Rightarrow> (ident \<times> py_implementation \<times> string \<times> kwargs option) list \<Rightarrow> exn + injector" where
  "register_all s [] = Inr s"
| "register_all s ((i, impl, l, p) # rest) =
     (case register s i impl l p of
        Inl e \<Rightarrow> Inl e
      | Inr s' \<Rightarrow> register_all s' rest)"

definition configure_dev :: "injector \<Rightarrow> exn + injector" where
  "configure_dev s =
     register_all s
       [(''ILogger'', PyType ConsoleLogger, Singleton, None),
        (''IDatabase'', PyType MockDatabase, PerRequest, None),
        (''IEmailService'', PyType MockEmailService, Scoped, None)]"

definition configure_prod :: "injector \<Rightarrow> exn + injector" where
  "configure_prod s =
     register_all s
       [(''ILogger'', PyFunction create_file_logger, Singleton, None),
        (''IDatabase'', PyType SqlDatabase, Scoped,
           Some [(''connection_string'', PyStr ''server=prod;database=app''),
                 (''logger'', PyStr ''@ILogger'')]),
        (''IEmailService'', PyType SmtpEmailService, Singleton,
           Some [(''smtp_server'', PyStr ''smtp.example.com''), (''smtp_port'', PyInt 587),
                 (''logger'', PyStr ''@ILogger'')])]"

section \<open>Invariants and example states\<close>

text \<open>
  What a call of \<^verbatim>\<open>get_instance\<close> may change: never the registrations nor the
  scope flag, and in a cache only an entry that was absent, for an identity registered
  with the life style of that cache (and, for the scoped cache, inside a scope).
\<close>

definition frame :: "injector \<Rightarrow> injector \<Rightarrow> bool" where
  "frame s s' \<longleftrightarrow>
     registrations s' = registrations s \<and> in_scope s' = in_scope s \<and>
     (\<forall>k. singleton_instances s' k \<noteq> singleton_instances s k \<longrightarrow>
        singleton_instances s k = None \<and>
        (\<exists>reg. registrations s k = Some reg \<and> life_style reg = Singleton)) \<and>
     (\<forall>k. scoped_instances s' k \<noteq> scoped_instances s k \<longrightarrow>
        scoped_instances s k = None \<and> in_scope s \<and>
        (\<exists>reg. registrations s k = Some reg \<and> life_style reg = Scoped))"

definition framed :: "(injector \<Rightarrow> ident \<Rightarrow> 'a outcome) \<Rightarrow> bool" where
  "framed gi \<longleftrightarrow> (\<forall>s k r s'. gi s k = Some (r, s') \<longrightarrow> frame s s')"

text \<open>The injector of \<^verbatim>\<open>__main__\<close> after \<^verbatim>\<open>configure_dev\<close>.\<close>

definition dev_injector :: injector where
  "dev_injector = (case configure_dev init of Inr s \<Rightarrow> s | Inl e \<Rightarrow> init)"

text \<open>
  An example factory that keeps the keyword arguments it is called with, and an injector
  where a factory registration has a back-reference among its parameters.
\<close>

definition echo_factory :: "kwargs \<Rightarrow> exn + val" where
  "echo_factory kw = Inr (PyObj ''Echo'' kw)"

definition echo_injector :: injector where
  "echo_injector =
     (case register_all init
             [(''ILogger'', PyType ConsoleLogger, PerRequest, None),
              (''IDatabase'', PyFunction echo_factory, PerRequest,
                 Some [(''logger'', PyStr ''@ILogger'')])] of
        Inr s \<Rightarrow> s
      | Inl e \<Rightarrow> init)"

text \<open>The injector of \<^verbatim>\<open>__main__\<close> after \<^verbatim>\<open>configure_prod\<close>.\<close>

definition prod_injector :: injector where
  "prod_injector = (case configure_prod init of Inr s \<Rightarrow> s | Inl e \<Rightarrow> init)"

text \<open>
  The operations a caller performs on an injector, one after the other.  An exception of
  \<^verbatim>\<open>register\<close> or \<^verbatim>\<open>get_instance\<close> is caught by the caller, as in
  \<^verbatim>\<open>demo\<close>, and the sequence goes on in the state the call has left.
\<close>

datatype operation =
    Register ident py_implementation string "kwargs option"
  | GetInstance ident
  | ScopeEnter
  | ScopeExit

fun step :: "(string \<rightharpoonup> ident) \<Rightarrow> nat \<Rightarrow> injector \<Rightarrow> operation \<Rightarrow> injector option" where
  "step G n s (Register k impl l p) =
     Some (case register s k impl l p of Inl e \<Rightarrow> s | Inr s' \<Rightarrow> s')"
| "step G n s (GetInstance k) = map_option snd (get_instance G n s k)"
| "step G n s ScopeEnter = Some (scope_enter s)"
| "step G n s ScopeExit = Some (scope_exit s)"

fun run :: "(string \<rightharpoonup> ident) \<Rightarrow> nat \<Rightarrow> injector \<Rightarrow> operation list \<Rightarrow> injector option" where
  "run G n s [] = Some s"
| "run G n s (op # ops) =
     (case step G n s op of
        None \<Rightarrow> None
      | Some s' \<Rightarrow> run G n s' ops)"

text \<open>
  The development injector after the first lookup of \<^verbatim>\<open>ILogger\<close>, a session that
  follows it, and the state it ends in.
\<close>

definition dev_logger_built :: injector where
  "dev_logger_built =
     dev_injector\<lparr>singleton_instances := [''ILogger'' \<mapsto> PyObj ''ConsoleLogger'' []]\<rparr>"



text \<open>
  An injector with \<^verbatim>\<open>SqlDatabase\<close>, whose instances have \<^verbatim>\<open>set_logger\<close>,
  and no logger; and the same with a scoped logger.
\<close>

definition db_only_injector :: injector where
  "db_only_injector =
     (case register init ''IDatabase'' (PyType SqlDatabase) PerRequest
             (Some [(''connection_string'', PyStr ''server=test'')]) of
        Inr s \<Rightarrow> s
      | Inl e \<Rightarrow> init)"

definition scoped_logger_injector :: injector where
  "scoped_logger_injector =
     (case register db_only_injector ''ILogger'' (PyType ConsoleLogger) Scoped None of
        Inr s \<Rightarrow> s
      | Inl e \<Rightarrow> init)"

definition sql_reg :: registration where
  "sql_reg = \<lparr>life_style = PerRequest, params = [(''connection_string'', PyStr ''server=test'')],
              factory = None, implementation = Some SqlDatabase\<rparr>"

definition sql_instance :: val where
  "sql_instance =
     PyObj ''SqlDatabase'' [(''connection_string'', PyStr ''server=test''), (''_logger'', PyNone)]"

text \<open>
  The development injector after the first lookup of \<^verbatim>\<open>ILogger\<close> and a second
  registration of \<^verbatim>\<open>ILogger\<close>, as a singleton and per request.
\<close>

definition dev_reregistered :: injector where
  "dev_reregistered =
     dev_logger_built\<lparr>registrations := (registrations dev_logger_built)(''ILogger'' \<mapsto>
       \<lparr>life_style = Singleton, params = [], factory = None, implementation = Some FileLogger\<rparr>)\<rparr>"

definition dev_transient_logger :: injector where
  "dev_transient_logger =
     dev_logger_built\<lparr>registrations := (registrations dev_logger_built)(''ILogger'' \<mapsto>
       \<lparr>life_style = PerRequest, params = [], factory = None, implementation = Some FileLogger\<rparr>)\<rparr>"

text \<open>
  The production injector after the first lookup of \<^verbatim>\<open>ILogger\<close>, whose factory
  returns \<open>file_logger\<close>; the parameters of its database registration; and parameters
  with a back-reference to a name that the module does not define.
\<close>

definition file_logger :: val where
  "file_logger = PyObj ''FileLogger'' [(''filename'', PyStr ''custom.log'')]"

definition prod_logger_built :: injector where
  "prod_logger_built = prod_injector\<lparr>singleton_instances := [''ILogger'' \<mapsto> file_logger]\<rparr>"

definition prod_db_params :: kwargs where
  "prod_db_params =
     [(''connection_string'', PyStr ''server=prod;database=app''), (''logger'', PyStr ''@ILogger'')]"

definition audit_params :: kwargs where
  "audit_params = [(''retries'', PyInt 3), (''audit'', PyStr ''@IAudit'')]"

text \<open>
  The production injector with an email service that depends on the logger and then on
  the unknown \<^verbatim>\<open>IAudit\<close>; and an injector whose only registration refers to a
  logger that is not registered.
\<close>

definition audit_injector :: injector where
  "audit_injector =
     (case register prod_injector ''IEmailService'' (PyType SmtpEmailService) Singleton
             (Some [(''smtp_server'', PyStr ''smtp.example.com''), (''logger'', PyStr ''@ILogger''),
                    (''audit'', PyStr ''@IAudit'')]) of
        Inr s \<Rightarrow> s
      | Inl e \<Rightarrow> init)"

definition audit_reg :: registration where
  "audit_reg =
     \<lparr>life_style = Singleton,
      params = [(''smtp_server'', PyStr ''smtp.example.com''), (''logger'', PyStr ''@ILogger''),
                (''audit'', PyStr ''@IAudit'')],
      factory = None, implementation = Some SmtpEmailService\<rparr>"

definition orphan_injector :: injector where
  "orphan_injector =
     (case register init ''IDatabase'' (PyType SqlDatabase) Singleton
             (Some [(''connection_string'', PyStr ''server=test''), (''logger'', PyStr ''@ILogger'')]) of
        Inr s \<Rightarrow> s
      | Inl e \<Rightarrow> init)"

definition orphan_reg :: registration where
  "orphan_reg =
     \<lparr>life_style = Singleton,
      params = [(''connection_string'', PyStr ''server=test''), (''logger'', PyStr ''@ILogger'')],
      factory = None, implementation = Some SqlDatabase\<rparr>"

text \<open>
  The exception of a back-reference that cannot be followed: the \<^verbatim>\<open>ValueError\<close>
  of \<^verbatim>\<open>_resolve_constructor_params\<close> when the name is not in the namespace, and
  that of \<^verbatim>\<open>get_instance\<close> when the identity it names has no registration.
\<close>

definition unknown_dependency :: "(string \<rightharpoonup> ident) \<Rightarrow> val \<Rightarrow> exn" where
  "unknown_dependency G v =
     (case G (reference_name v) of
        None \<Rightarrow> dependency_not_found (reference_name v)
      | Some d \<Rightarrow> no_registration d)"

text \<open>
  The scope flag after a sequence of operations, read off the sequence alone: the last
  entry or exit decides.  \<open>open_scopes\<close> counts the \<^verbatim>\<open>with\<close> blocks that have
  been entered and not yet left.
\<close>

fun flag_after :: "bool \<Rightarrow> operation list \<Rightarrow> bool" where
  "flag_after b [] = b"
| "flag_after b (ScopeEnter # ops) = flag_after True ops"
| "flag_after b (ScopeExit # ops) = flag_after False ops"
| "flag_after b (op # ops) = flag_after b ops"

fun scope_depth :: "nat \<Rightarrow> operation list \<Rightarrow> nat" where
  "scope_depth d [] = d"
| "scope_depth d (ScopeEnter # ops) = scope_depth (Suc d) ops"
| "scope_depth d (ScopeExit # ops) = scope_depth (d - 1) ops"
| "scope_depth d (op # ops) = scope_depth d ops"

definition open_scopes :: "operation list \<Rightarrow> nat" where
  "open_scopes ops = scope_depth 0 ops"

text \<open>
  The registrations have no cycle of dependencies when the identities can be ranked so
  that every back-reference of a class registration, and the logger of a class with
  \<^verbatim>\<open>set_logger\<close>, ranks lower than the identity registered.  \<open>below\<close> bounds
  the ranks of the cache entries in which two states differ.
\<close>

definition acyclic_by :: "(string \<rightharpoonup> ident) \<Rightarrow> injector \<Rightarrow> (ident \<Rightarrow> nat) \<Rightarrow> bool" where
  "acyclic_by G s rank \<longleftrightarrow>
     (\<forall>j reg c. registrations s j = Some reg \<and> factory reg = None \<and> implementation reg = Some c \<longrightarrow>
        (\<forall>p v d. (p, v) \<in> set (params reg) \<and> is_reference v \<and> G (reference_name v) = Some d \<longrightarrow>
           rank d < rank j) \<and>
        (set_logger c \<noteq> None \<longrightarrow> rank ILogger < rank j))"

definition below :: "(ident \<Rightarrow> nat) \<Rightarrow> nat \<Rightarrow> injector \<Rightarrow> injector \<Rightarrow> bool" where
  "below rank b s s' \<longleftrightarrow>
     (\<forall>i. singleton_instances s' i \<noteq> singleton_instances s i \<or>
          scoped_instances s' i \<noteq> scoped_instances s i \<longrightarrow> rank i < b)"

definition ranked :: "(string \<rightharpoonup> ident) \<Rightarrow> (ident \<Rightarrow> nat) \<Rightarrow> (injector \<Rightarrow> ident \<Rightarrow> val outcome) \<Rightarrow> bool" where
  "ranked G rank gi \<longleftrightarrow>
     framed gi \<and>
     (\<forall>s j r s'. acyclic_by G s rank \<and> gi s j = Some (r, s') \<longrightarrow> below rank (Suc (rank j)) s s')"

definition logger_first :: "ident \<Rightarrow> nat" where
  "logger_first i = (if i = ''ILogger'' then 0 else 1)"





subsection \<open>The constructions of a lookup\<close>











section \<open>Properties of the container\<close>

subsection \<open>Exceptions and frame of \<^verbatim>\<open>get_instance\<close>\<close>

lemma reraise_failed_Inl:
  "reraise_failed k r = Some (Inl e, s') \<longleftrightarrow> (\<exists>e0. r = Some (Inl e0, s') \<and> e = creation_failure k e0)"
  by (cases "(k, r)" rule: reraise_failed.cases) auto


lemma reraise_failed_None:
  "reraise_failed k r = None \<longleftrightarrow> r = None"
  by (cases "(k, r)" rule: reraise_failed.cases) auto

lemma reraise_failed_state:
  "reraise_failed k r = Some (x, s') \<Longrightarrow> \<exists>y. r = Some (y, s')"
  by (cases "(k, r)" rule: reraise_failed.cases) auto

lemma body_errors:
  "get_instance_body G gi s k = Some (Inl e, s') \<Longrightarrow> swallowed e"
  by (auto simp: get_instance_body_def no_registration_def creation_failure_def reraise_failed_Inl
      split: option.splits)

lemma get_instance_errors:
  "get_instance G n s k = Some (Inl e, s') \<Longrightarrow> swallowed e"
  by (cases n) (auto simp: recursion_error_def dest: body_errors)

lemma frame_refl: "frame s s" by (simp add: frame_def)

lemma frame_trans:
  assumes "frame s s1" and "frame s1 s2"
  shows "frame s s2"
proof -
  have r: "registrations s1 = registrations s" "in_scope s1 = in_scope s"
    "registrations s2 = registrations s1" "in_scope s2 = in_scope s1"
    using assms by (simp_all add: frame_def)
  have a1: "singleton_instances s k = None \<and>
      (\<exists>reg. registrations s k = Some reg \<and> life_style reg = Singleton)"
    if "singleton_instances s1 k \<noteq> singleton_instances s k" for k
    using assms(1) that by (simp add: frame_def)
  have a2: "singleton_instances s1 k = None \<and>
      (\<exists>reg. registrations s1 k = Some reg \<and> life_style reg = Singleton)"
    if "singleton_instances s2 k \<noteq> singleton_instances s1 k" for k
    using assms(2) that by (simp add: frame_def)
  have b1: "scoped_instances s k = None \<and> in_scope s \<and>
      (\<exists>reg. registrations s k = Some reg \<and> life_style reg = Scoped)"
    if "scoped_instances s1 k \<noteq> scoped_instances s k" for k
    using assms(1) that by (simp add: frame_def)
  have b2: "scoped_instances s1 k = None \<and> in_scope s1 \<and>
      (\<exists>reg. registrations s1 k = Some reg \<and> life_style reg = Scoped)"
    if "scoped_instances s2 k \<noteq> scoped_instances s1 k" for k
    using assms(2) that by (simp add: frame_def)
  have c1: "singleton_instances s k = None \<and>
      (\<exists>reg. registrations s k = Some reg \<and> life_style reg = Singleton)"
    if "singleton_instances s2 k \<noteq> singleton_instances s k" for k
  proof (cases "singleton_instances s1 k = singleton_instances s k")
    case True
    with that a2[of k] r show ?thesis by simp
  next
    case False
    then show ?thesis by (rule a1)
  qed
  have c2: "scoped_instances s k = None \<and> in_scope s \<and>
      (\<exists>reg. registrations s k = Some reg \<and> life_style reg = Scoped)"
    if "scoped_instances s2 k \<noteq> scoped_instances s k" for k
  proof (cases "scoped_instances s1 k = scoped_instances s k")
    case True
    with that b2[of k] r show ?thesis by simp
  next
    case False
    then show ?thesis by (rule b1)
  qed
  show ?thesis
    unfolding frame_def using r c1 c2 by simp
qed

lemma framedD: "framed gi \<Longrightarrow> gi s k = Some (r, s') \<Longrightarrow> frame s s'"
  by (auto simp: framed_def)

lemma resolve_loop_frame:
  "framed gi \<Longrightarrow> resolve_loop G gi s ps acc = Some (r, s') \<Longrightarrow> frame s s'"
proof (induction ps arbitrary: s acc)
  case Nil
  then show ?case by (simp add: frame_refl)
next
  case (Cons p ps)
  obtain n v where p: "p = (n, v)" by (cases p)
  show ?case
  proof (cases "is_reference v")
    case False
    with Cons p show ?thesis by simp
  next
    case True
    show ?thesis
    proof (cases "G (reference_name v)")
      case None
      with Cons.prems True p show ?thesis by (simp add: frame_refl)
    next
      case (Some d)
      show ?thesis
      proof (cases "gi s d")
        case None
        with Cons.prems True p Some show ?thesis by simp
      next
        case gi: (Some a)
        obtain x s1 where a: "a = (x, s1)" by (cases a)
        from Cons.prems(1) gi a have f1: "frame s s1" by (auto dest: framedD)
        show ?thesis
        proof (cases x)
          case (Inl e)
          with Cons.prems True p Some gi a f1 show ?thesis
            by (cases e) auto
        next
          case (Inr w)
          with Cons.prems True p Some gi a
          have "resolve_loop G gi s1 ps (AList.update n w acc) = Some (r, s')" by simp
          from Cons.IH[OF Cons.prems(1) this] f1 show ?thesis by (rule frame_trans[rotated])
        qed
      qed
    qed
  qed
qed

lemma inject_logger_frame:
  "framed gi \<Longrightarrow> inject_logger gi s m i = Some (r, s') \<Longrightarrow> frame s s'"
  by (auto simp: inject_logger_def split: option.splits sum.splits prod.splits if_splits dest: framedD)

lemma create_body_frame:
  assumes "framed gi" and "create_body G gi s reg = Some (r, s')"
  shows "frame s s'"
proof (cases "factory reg")
  case (Some f)
  with assms(2) show ?thesis
    by (auto simp: create_body_def frame_refl split: sum.splits)
next
  case None
  show ?thesis
  proof (cases "implementation reg")
    case no: None
    with None assms(2) show ?thesis by (simp add: create_body_def frame_refl)
  next
    case (Some c)
    show ?thesis
    proof (cases "resolve_loop G gi s (params reg) []")
      case nr: None
      with None Some assms(2) show ?thesis
        by (simp add: create_body_def resolve_constructor_params_def)
    next
      case sr: (Some a)
      obtain x s1 where a: "a = (x, s1)" by (cases a)
      from resolve_loop_frame[OF assms(1)] sr a have f1: "frame s s1" by simp
      show ?thesis
      proof (cases x)
        case (Inl e)
        with None Some sr a assms(2) f1 show ?thesis
          by (simp add: create_body_def resolve_constructor_params_def)
      next
        case (Inr cp)
        show ?thesis
        proof (cases "construct c cp")
          case il: (Inl e)
          with Inr None Some sr a assms(2) f1 show ?thesis
            by (simp add: create_body_def resolve_constructor_params_def)
        next
          case ir: (Inr inst)
          show ?thesis
          proof (cases "set_logger c")
            case nl: None
            with ir Inr None Some sr a assms(2) f1 show ?thesis
              by (simp add: create_body_def resolve_constructor_params_def)
          next
            case sl: (Some m)
            with ir Inr None Some sr a assms(2)
            have "inject_logger gi s1 m inst = Some (r, s')"
              by (simp add: create_body_def resolve_constructor_params_def)
            from inject_logger_frame[OF assms(1) this] f1 show ?thesis
              by (rule frame_trans[rotated])
          qed
        qed
      qed
    qed
  qed
qed

lemma create_instance_frame:
  "framed gi \<Longrightarrow> create_instance G gi s k = Some (r, s') \<Longrightarrow> frame s s'"
  by (auto simp: create_instance_def frame_refl split: option.splits
      dest!: reraise_failed_state dest: create_body_frame)

lemma frame_singleton_upd:
  "frame s s' \<Longrightarrow> singleton_instances s k = None \<Longrightarrow> registrations s k = Some reg \<Longrightarrow>
   life_style reg = Singleton \<Longrightarrow>
   frame s (s'\<lparr>singleton_instances := (singleton_instances s')(k \<mapsto> v)\<rparr>)"
  unfolding frame_def by auto

lemma frame_scoped_upd:
  "frame s s' \<Longrightarrow> scoped_instances s k = None \<Longrightarrow> in_scope s \<Longrightarrow> registrations s k = Some reg \<Longrightarrow>
   life_style reg = Scoped \<Longrightarrow>
   frame s (s'\<lparr>scoped_instances := (scoped_instances s')(k \<mapsto> v)\<rparr>)"
  unfolding frame_def by auto

lemma dispatch_frame:
  assumes "framed gi" and reg: "registrations s k = Some reg"
    and d: "dispatch G gi s k (life_style reg) = Some (r, s')"
  shows "frame s s'"
proof -
  note cf = create_instance_frame[OF assms(1)]
  consider (single) "life_style reg = Singleton"
    | (scoped) "life_style reg \<noteq> Singleton" "life_style reg = Scoped"
    | (other) "life_style reg \<noteq> Singleton" "life_style reg \<noteq> Scoped"
    by blast
  then show ?thesis
  proof cases
    case single
    show ?thesis
    proof (cases "singleton_instances s k")
      case (Some v)
      with d single show ?thesis by (simp add: dispatch_def frame_refl)
    next
      case None
      show ?thesis
      proof (cases "create_instance G gi s k")
        case nc: None
        with d single None show ?thesis by (simp add: dispatch_def)
      next
        case (Some a)
        obtain x s1 where a: "a = (x, s1)" by (cases a)
        from cf Some a have f1: "frame s s1" by simp
        show ?thesis
        proof (cases x)
          case (Inl e)
          with d single None Some a f1 show ?thesis by (simp add: dispatch_def)
        next
          case (Inr v)
          with d single None Some a
          have "s' = s1\<lparr>singleton_instances := (singleton_instances s1)(k \<mapsto> v)\<rparr>"
            by (simp add: dispatch_def)
          with frame_singleton_upd[OF f1 None reg single] show ?thesis by simp
        qed
      qed
    qed
  next
    case scoped
    show ?thesis
    proof (cases "in_scope s")
      case False
      with d scoped show ?thesis by (simp add: dispatch_def frame_refl)
    next
      case True
      show ?thesis
      proof (cases "scoped_instances s k")
        case (Some v)
        with d scoped True show ?thesis by (simp add: dispatch_def frame_refl)
      next
        case None
        show ?thesis
        proof (cases "create_instance G gi s k")
          case nc: None
          with d scoped True None show ?thesis by (simp add: dispatch_def)
        next
          case (Some a)
          obtain x s1 where a: "a = (x, s1)" by (cases a)
          from cf Some a have f1: "frame s s1" by simp
          show ?thesis
          proof (cases x)
            case (Inl e)
            with d scoped True None Some a f1 show ?thesis by (simp add: dispatch_def)
          next
            case (Inr v)
            with d scoped True None Some a
            have "s' = s1\<lparr>scoped_instances := (scoped_instances s1)(k \<mapsto> v)\<rparr>"
              by (simp add: dispatch_def)
            with frame_scoped_upd[OF f1 None True reg scoped(2)] show ?thesis by simp
          qed
        qed
      qed
    qed
  next
    case other
    with d have "create_instance G gi s k = Some (r, s')" by (simp add: dispatch_def)
    then show ?thesis by (rule cf)
  qed
qed

lemma get_instance_body_framed:
  "framed gi \<Longrightarrow> framed (get_instance_body G gi)"
  unfolding framed_def[of "get_instance_body G gi"]
  by (auto simp: get_instance_body_def frame_refl split: option.splits
      dest!: reraise_failed_state dest: dispatch_frame)

lemma get_instance_framed: "framed (get_instance G n)"
proof (induction n)
  case 0
  show ?case by (simp add: framed_def frame_refl)
next
  case (Suc n)
  then show ?case by (simp add: get_instance_body_framed)
qed

lemma dev_regs:
  "registrations dev_injector ''IEmailService'' = Some \<lparr>life_style = Scoped, params = [], factory = None, implementation = Some MockEmailService\<rparr>"
  "in_scope dev_injector = False"
  "registrations dev_injector ''Nope'' = None"
  by (simp_all add: dev_injector_def configure_dev_def register_def init_def)

subsection \<open>The lookup returns or raises\<close>

text \<open>
  Whatever the registrations, and however they depend on each other, a lookup ends: it
  returns an instance or raises, at the latest with the \<^verbatim>\<open>RecursionError\<close>.
\<close>

lemma resolve_loop_returns:
  assumes "\<And>s k. \<exists>r. gi s k = Some r"
  shows "\<exists>r. resolve_loop G gi s ps acc = Some r"
proof (induction ps arbitrary: s acc)
  case Nil
  show ?case by simp
next
  case (Cons a ps)
  obtain p v where a: "a = (p, v)" by (cases a)
  show ?case
  proof (cases "is_reference v")
    case False
    with a Cons.IH show ?thesis by simp
  next
    case True
    show ?thesis
    proof (cases "G (reference_name v)")
      case None
      with a True show ?thesis by simp
    next
      case (Some d)
      from assms obtain x s' where g: "gi s d = Some (x, s')" by (metis surj_pair)
      show ?thesis
      proof (cases x)
        case (Inl e)
        with a True Some g show ?thesis by (cases e) simp_all
      next
        case (Inr w)
        with a True Some g Cons.IH show ?thesis by simp
      qed
    qed
  qed
qed

lemma inject_logger_returns:
  assumes "\<And>s k. \<exists>r. gi s k = Some r"
  shows "\<exists>r. inject_logger gi s m i = Some r"
proof -
  from assms obtain x s' where g: "gi s ILogger = Some (x, s')" by (metis surj_pair)
  then show ?thesis
    by (cases x) (auto simp: inject_logger_def split: option.splits prod.splits)
qed

lemma reraise_failed_returns: "\<exists>r. x = Some r \<Longrightarrow> \<exists>r. reraise_failed k x = Some r"
  by (cases "(k, x)" rule: reraise_failed.cases) simp_all

lemma create_body_returns:
  assumes "\<And>s k. \<exists>r. gi s k = Some r"
  shows "\<exists>r. create_body G gi s reg = Some r"
proof (cases "factory reg")
  case (Some f)
  then show ?thesis by (cases "f (params reg)") (simp_all add: create_body_def)
next
  case None
  note fac = this
  show ?thesis
  proof (cases "implementation reg")
    case None
    with fac show ?thesis by (simp add: create_body_def)
  next
    case (Some c)
    from resolve_loop_returns[of gi G s "params reg" "[]", OF assms]
    obtain x s1 where r: "resolve_constructor_params G gi s (params reg) = Some (x, s1)"
      by (auto simp: resolve_constructor_params_def)
    show ?thesis
    proof (cases x)
      case (Inl e)
      with fac Some r show ?thesis by (simp add: create_body_def)
    next
      case (Inr cp)
      show ?thesis
      proof (cases "construct c cp")
        case (Inl e)
        with fac Some r \<open>x = Inr cp\<close> show ?thesis by (simp add: create_body_def)
      next
        case inst: (Inr obj)
        show ?thesis
        proof (cases "set_logger c")
          case None
          with fac Some r \<open>x = Inr cp\<close> inst show ?thesis by (simp add: create_body_def)
        next
          case (Some m)
          with fac \<open>implementation reg = Some c\<close> r \<open>x = Inr cp\<close> inst
            inject_logger_returns[of gi s1 m obj, OF assms]
          show ?thesis by (simp add: create_body_def)
        qed
      qed
    qed
  qed
qed

lemma create_instance_returns:
  assumes "\<And>s k. \<exists>r. gi s k = Some r"
  shows "\<exists>r. create_instance G gi s k = Some r"
proof (cases "registrations s k")
  case None
  then show ?thesis by (simp add: create_instance_def)
next
  case (Some reg)
  have "\<exists>r. create_body G gi s reg = Some r" using assms by (rule create_body_returns)
  then have "\<exists>r. reraise_failed k (create_body G gi s reg) = Some r" by (rule reraise_failed_returns)
  with Some show ?thesis by (simp add: create_instance_def)
qed

lemma dispatch_returns:
  assumes "\<And>s k. \<exists>r. gi s k = Some r"
  shows "\<exists>r. dispatch G gi s k l = Some r"
proof -
  from create_instance_returns[of gi G s k, OF assms]
  obtain x s' where c: "create_instance G gi s k = Some (x, s')" by (metis surj_pair)
  then show ?thesis
    by (cases x) (auto simp: dispatch_def split: option.splits)
qed

lemma get_instance_returns: "\<exists>r. get_instance G n s k = Some r"
proof (induction n arbitrary: s k)
  case 0
  show ?case by simp
next
  case (Suc n)
  show ?case
  proof (cases "registrations s k")
    case None
    then show ?thesis by (simp add: get_instance_body_def)
  next
    case (Some reg)
    have "\<exists>r. dispatch G (get_instance G n) s k (life_style reg) = Some r"
      using Suc by (rule dispatch_returns)
    then have "\<exists>r. reraise_failed k (dispatch G (get_instance G n) s k (life_style reg)) = Some r"
      by (rule reraise_failed_returns)
    with Some show ?thesis by (simp add: get_instance_body_def)
  qed
qed

subsection \<open>Failures of the lookup\<close>

text \<open>
  Claim C1, as the code has it.  A lookup of an identity with no registration raises
  the \<^verbatim>\<open>ValueError\<close> \<open>no_registration\<close> directly: the check precedes the
  \<^verbatim>\<open>try\<close> block.  A lookup of an identity registered as \<^verbatim>\<open>Scoped\<close> while no
  scope is active raises \<open>out_of_scope\<close> inside the \<^verbatim>\<open>try\<close> block, so the
  handler of the block catches it and the caller receives the uniform
  \<open>creation_failure\<close> that wraps it.  In both cases the injector is unchanged.
\<close>

theorem lookup_failures:
  "(registrations s k = None \<longrightarrow>
      get_instance G (Suc n) s k = Some (Inl (no_registration k), s)) \<and>
   (registrations s k = Some reg \<and> life_style reg = Scoped \<and> \<not> in_scope s \<longrightarrow>
      get_instance G (Suc n) s k = Some (Inl (creation_failure k out_of_scope), s))"
  by (simp add: get_instance_body_def dispatch_def Scoped_def Singleton_def)

theorem lookup_failures_witness:
  "registrations dev_injector ''Nope'' = None \<and>
   get_instance module_globals (Suc 0) dev_injector ''Nope'' = Some (Inl (no_registration ''Nope''), dev_injector) \<and>
   \<not> in_scope dev_injector \<and>
   get_instance module_globals (Suc 0) dev_injector ''IEmailService'' =
     Some (Inl (creation_failure ''IEmailService'' out_of_scope), dev_injector)"
  using lookup_failures[where s = dev_injector and k = "''Nope''" and G = module_globals and n = 0]
    lookup_failures[where s = dev_injector and k = "''IEmailService''" and G = module_globals and n = 0
      and reg = "\<lparr>life_style = Scoped, params = [], factory = None, implementation = Some MockEmailService\<rparr>"]
  by (simp add: dev_regs)

text \<open>
  Claim C1 as stated fails: in the development configuration, outside a scope, the
  lookup of the scoped \<^verbatim>\<open>IEmailService\<close> does not end with \<open>out_of_scope\<close>
  itself but with the \<^verbatim>\<open>RuntimeError\<close> of the handler, whose text wraps it.
\<close>

theorem out_of_scope_wrapped:
  "get_instance module_globals (Suc 0) dev_injector ''IEmailService'' =
     Some (Inl (RuntimeError
       ''Failed to create instance of IEmailService: Cannot get scoped instance outside of a scope''),
       dev_injector) \<and>
   get_instance module_globals (Suc 0) dev_injector ''IEmailService'' \<noteq>
     Some (Inl out_of_scope, dev_injector)"
  by (simp add: get_instance_body_def dispatch_def dev_regs Scoped_def Singleton_def
      creation_failure_def out_of_scope_def)

lemma get_instance_frame:
  "get_instance G n s k = Some (r, s') \<Longrightarrow> frame s s'"
  using get_instance_framed[of G n] by (rule framedD)

subsection \<open>Evaluation of the example states\<close>

lemma dev_injector_eq:
  "dev_injector =
     \<lparr>registrations =
        [''ILogger'' \<mapsto> \<lparr>life_style = Singleton, params = [], factory = None, implementation = Some ConsoleLogger\<rparr>,
         ''IDatabase'' \<mapsto> \<lparr>life_style = PerRequest, params = [], factory = None, implementation = Some MockDatabase\<rparr>,
         ''IEmailService'' \<mapsto> \<lparr>life_style = Scoped, params = [], factory = None, implementation = Some MockEmailService\<rparr>],
      singleton_instances = Map.empty, scoped_instances = Map.empty, in_scope = False\<rparr>"
  by (simp add: dev_injector_def configure_dev_def register_def init_def)

lemmas eval_defs =
  get_instance_body_def dispatch_def create_instance_def create_body_def
  resolve_constructor_params_def inject_logger_def
  Singleton_def Scoped_def PerRequest_def ILogger_def
  ConsoleLogger_def MockDatabase_def MockEmailService_def no_init_def
  scope_enter_def scope_exit_def register_def

lemma echo_regs:
  "registrations echo_injector ''IDatabase'' =
     Some \<lparr>life_style = PerRequest, params = [(''logger'', PyStr ''@ILogger'')],
           factory = Some echo_factory, implementation = None\<rparr>"
  "registrations echo_injector ''ILogger'' =
     Some \<lparr>life_style = PerRequest, params = [], factory = None, implementation = Some ConsoleLogger\<rparr>"
  by (simp_all add: echo_injector_def register_def init_def)

lemma prod_regs:
  "registrations prod_injector ''ILogger'' =
     Some \<lparr>life_style = Singleton, params = [], factory = Some create_file_logger, implementation = None\<rparr>"
  "registrations prod_injector ''IDatabase'' =
     Some \<lparr>life_style = Scoped,
            params = [(''connection_string'', PyStr ''server=prod;database=app''), (''logger'', PyStr ''@ILogger'')],
            factory = None, implementation = Some SqlDatabase\<rparr>"
  "registrations prod_injector ''IEmailService'' =
     Some \<lparr>life_style = Singleton,
            params = [(''smtp_server'', PyStr ''smtp.example.com''), (''smtp_port'', PyInt 587), (''logger'', PyStr ''@ILogger'')],
            factory = None, implementation = Some SmtpEmailService\<rparr>"
  "singleton_instances prod_injector = Map.empty"
  "scoped_instances prod_injector = Map.empty"
  "in_scope prod_injector = False"
  by (simp_all add: prod_injector_def configure_prod_def register_def init_def)

lemma db_only_injector_eq:
  "db_only_injector =
     \<lparr>registrations = [''IDatabase'' \<mapsto> sql_reg],
      singleton_instances = Map.empty, scoped_instances = Map.empty, in_scope = False\<rparr>"
  by (simp add: db_only_injector_def register_def init_def sql_reg_def)

lemma scoped_logger_injector_eq:
  "scoped_logger_injector =
     \<lparr>registrations = [''IDatabase'' \<mapsto> sql_reg,
        ''ILogger'' \<mapsto> \<lparr>life_style = Scoped, params = [], factory = None, implementation = Some ConsoleLogger\<rparr>],
      singleton_instances = Map.empty, scoped_instances = Map.empty, in_scope = False\<rparr>"
  by (simp add: scoped_logger_injector_def db_only_injector_eq register_def)

lemma sql_construct:
  "construct SqlDatabase [(''connection_string'', PyStr ''server=test'')] = Inr sql_instance"
  by (simp add: SqlDatabase_def SqlDatabase_init_def unexpected_def keyword_def sql_instance_def)

subsection \<open>Factories\<close>

text \<open>
  Claim C2, as the code has it.  For a registration that carries a factory,
  \<^verbatim>\<open>_create_instance\<close> calls the factory with the parameters as they were
  registered: no back-reference is substituted, no lookup is made (the equation holds
  for any \<open>gi\<close>) and the injector is unchanged.  What the factory returns is the
  instance, with no setter injection; what it raises is wrapped.  \<^verbatim>\<open>get_instance\<close>
  returns that instance, and stores it in the cache of its life style.
\<close>

theorem factory_strategy:
  assumes "registrations s k = Some reg" and "factory reg = Some f"
  shows "create_instance G gi s k =
           (case f (params reg) of
              Inl e \<Rightarrow> Some (Inl (creation_failure k e), s)
            | Inr v \<Rightarrow> Some (Inr v, s)) \<and>
         (life_style reg \<noteq> Singleton \<and> life_style reg \<noteq> Scoped \<longrightarrow>
            get_instance G (Suc n) s k =
              (case f (params reg) of
                 Inl e \<Rightarrow> Some (Inl (creation_failure k (creation_failure k e)), s)
               | Inr v \<Rightarrow> Some (Inr v, s))) \<and>
         (life_style reg = Singleton \<and> singleton_instances s k = None \<and> f (params reg) = Inr v \<longrightarrow>
            get_instance G (Suc n) s k =
              Some (Inr v, s\<lparr>singleton_instances := (singleton_instances s)(k \<mapsto> v)\<rparr>)) \<and>
         (life_style reg = Scoped \<and> in_scope s \<and> scoped_instances s k = None \<and> f (params reg) = Inr v \<longrightarrow>
            get_instance G (Suc n) s k =
              Some (Inr v, s\<lparr>scoped_instances := (scoped_instances s)(k \<mapsto> v)\<rparr>))"
proof -
  have c: "create_instance G gi s k =
           (case f (params reg) of
              Inl e \<Rightarrow> Some (Inl (creation_failure k e), s)
            | Inr v \<Rightarrow> Some (Inr v, s))" for gi
    using assms by (simp add: create_instance_def create_body_def split: sum.splits)
  show ?thesis
    using assms(1)
    by (simp add: c get_instance_body_def dispatch_def Singleton_def Scoped_def split: sum.splits)
qed

theorem factory_strategy_witness:
  "get_instance module_globals (Suc 0) echo_injector ''IDatabase'' =
     Some (Inr (PyObj ''Echo'' [(''logger'', PyStr ''@ILogger'')]), echo_injector) \<and>
   get_instance module_globals (Suc 0) prod_injector ''ILogger'' =
     Some (Inr (PyObj ''FileLogger'' [(''filename'', PyStr ''custom.log'')]),
           prod_injector\<lparr>singleton_instances :=
             (singleton_instances prod_injector)(''ILogger'' \<mapsto> PyObj ''FileLogger'' [(''filename'', PyStr ''custom.log'')])\<rparr>)"
  using factory_strategy[where s = echo_injector and k = "''IDatabase''" and f = echo_factory
      and G = module_globals and n = 0, OF echo_regs(1)]
    factory_strategy[where s = prod_injector and k = "''ILogger''" and f = create_file_logger
      and G = module_globals and n = 0 and v = "PyObj ''FileLogger'' [(''filename'', PyStr ''custom.log'')]",
      OF prod_regs(1)]
  by (simp add: echo_factory_def PerRequest_def Singleton_def Scoped_def prod_regs
      create_file_logger_def FileLogger_def FileLogger_init_def unexpected_def keyword_def)

text \<open>
  Claim C2 as stated fails: the factory receives the marker \<^verbatim>\<open>'@ILogger'\<close> itself,
  where the resolver would have put the logger.
\<close>

theorem factory_gets_raw_params:
  "get_instance module_globals (Suc (Suc 0)) echo_injector ''IDatabase'' =
     Some (Inr (PyObj ''Echo'' [(''logger'', PyStr ''@ILogger'')]), echo_injector) \<and>
   resolve_constructor_params module_globals (get_instance module_globals (Suc 0)) echo_injector
       [(''logger'', PyStr ''@ILogger'')] =
     Some (Inr [(''logger'', PyObj ''ConsoleLogger'' [])], echo_injector) \<and>
   echo_factory [(''logger'', PyObj ''ConsoleLogger'' [])] \<noteq>
     Inr (PyObj ''Echo'' [(''logger'', PyStr ''@ILogger'')])"
  by (simp add: get_instance_body_def dispatch_def create_instance_def create_body_def echo_regs
      resolve_constructor_params_def module_globals_def ConsoleLogger_def no_init_def
      echo_factory_def PerRequest_def Singleton_def Scoped_def)

subsection \<open>Singletons\<close>


lemma register_caches:
  "register s k impl l p = Inr s' \<Longrightarrow>
     singleton_instances s' = singleton_instances s \<and> scoped_instances s' = scoped_instances s \<and>
     in_scope s' = in_scope s"
  by (auto simp: register_def Let_def split: if_splits)





subsection \<open>Setter injection\<close>

text \<open>
  Claim C7.  For a registration with a class whose instances have \<^verbatim>\<open>set_logger\<close>,
  once the parameters are resolved and the instance is constructed: if the lookup of
  \<^verbatim>\<open>ILogger\<close> raises, whatever the exception, the construction returns the
  instance as constructed, and so does \<^verbatim>\<open>get_instance\<close>; in particular when
  \<^verbatim>\<open>ILogger\<close> has no registration.
\<close>

theorem setter_injection_skipped:
  assumes "registrations s k = Some reg" and "factory reg = None" and "implementation reg = Some c"
    and "set_logger c = Some m"
    and "resolve_constructor_params G (get_instance G n) s (params reg) = Some (Inr cp, s1)"
    and "construct c cp = Inr inst"
  shows "(\<forall>e s2. get_instance G n s1 ILogger = Some (Inl e, s2) \<longrightarrow>
            create_instance G (get_instance G n) s k = Some (Inr inst, s2) \<and>
            (life_style reg \<noteq> Singleton \<and> life_style reg \<noteq> Scoped \<longrightarrow>
               get_instance G (Suc n) s k = Some (Inr inst, s2)) \<and>
            (life_style reg = Singleton \<and> singleton_instances s k = None \<longrightarrow>
               get_instance G (Suc n) s k =
                 Some (Inr inst, s2\<lparr>singleton_instances := (singleton_instances s2)(k \<mapsto> inst)\<rparr>)) \<and>
            (life_style reg = Scoped \<and> in_scope s \<and> scoped_instances s k = None \<longrightarrow>
               get_instance G (Suc n) s k =
                 Some (Inr inst, s2\<lparr>scoped_instances := (scoped_instances s2)(k \<mapsto> inst)\<rparr>))) \<and>
         (registrations s ILogger = None \<and> 0 < n \<longrightarrow>
            create_instance G (get_instance G n) s k = Some (Inr inst, s1))"
proof -
  have a: "create_instance G (get_instance G n) s k = Some (Inr inst, s2)"
    if "get_instance G n s1 ILogger = Some (Inl e, s2)" for e s2
  proof -
    from that have "swallowed e" by (rule get_instance_errors)
    with that assms show ?thesis
      by (simp add: create_instance_def create_body_def inject_logger_def)
  qed
  have b: "get_instance G (Suc n) s k = Some (Inr inst, s2)"
    if "get_instance G n s1 ILogger = Some (Inl e, s2)"
      and "life_style reg \<noteq> Singleton" "life_style reg \<noteq> Scoped" for e s2
    using a[OF that(1)] that(2,3) assms(1) by (simp add: get_instance_body_def dispatch_def)
  have c: "create_instance G (get_instance G n) s k = Some (Inr inst, s1)"
    if "registrations s ILogger = None" and "0 < n"
  proof -
    from assms(5) have "frame s s1"
      unfolding resolve_constructor_params_def
      by (rule resolve_loop_frame[OF get_instance_framed])
    with that(1) have "registrations s1 ILogger = None" by (simp add: frame_def)
    moreover from that(2) obtain n' where "n = Suc n'" by (cases n) auto
    ultimately have "get_instance G n s1 ILogger = Some (Inl (no_registration ILogger), s1)"
      by (simp add: get_instance_body_def)
    then show ?thesis by (rule a)
  qed
  have b1: "get_instance G (Suc n) s k =
      Some (Inr inst, s2\<lparr>singleton_instances := (singleton_instances s2)(k \<mapsto> inst)\<rparr>)"
    if "get_instance G n s1 ILogger = Some (Inl e, s2)"
      and "life_style reg = Singleton" "singleton_instances s k = None" for e s2
    using a[OF that(1)] that(2,3) assms(1) by (simp add: get_instance_body_def dispatch_def)
  have b2: "get_instance G (Suc n) s k =
      Some (Inr inst, s2\<lparr>scoped_instances := (scoped_instances s2)(k \<mapsto> inst)\<rparr>)"
    if "get_instance G n s1 ILogger = Some (Inl e, s2)"
      and "life_style reg = Scoped" "in_scope s" "scoped_instances s k = None" for e s2
    using a[OF that(1)] that(2,3,4) assms(1)
    by (simp add: get_instance_body_def dispatch_def Scoped_def Singleton_def)
  have 1: "\<forall>e s2. get_instance G n s1 ILogger = Some (Inl e, s2) \<longrightarrow>
            create_instance G (get_instance G n) s k = Some (Inr inst, s2) \<and>
            (life_style reg \<noteq> Singleton \<and> life_style reg \<noteq> Scoped \<longrightarrow>
               get_instance G (Suc n) s k = Some (Inr inst, s2)) \<and>
            (life_style reg = Singleton \<and> singleton_instances s k = None \<longrightarrow>
               get_instance G (Suc n) s k =
                 Some (Inr inst, s2\<lparr>singleton_instances := (singleton_instances s2)(k \<mapsto> inst)\<rparr>)) \<and>
            (life_style reg = Scoped \<and> in_scope s \<and> scoped_instances s k = None \<longrightarrow>
               get_instance G (Suc n) s k =
                 Some (Inr inst, s2\<lparr>scoped_instances := (scoped_instances s2)(k \<mapsto> inst)\<rparr>))"
    using a b b1 b2 by (intro allI impI conjI) blast+
  have 2: "registrations s ILogger = None \<and> 0 < n \<longrightarrow>
            create_instance G (get_instance G n) s k = Some (Inr inst, s1)"
    using c by blast
  from 1 2 show ?thesis by (intro conjI)
qed

theorem setter_injection_skipped_witness:
  "registrations db_only_injector ILogger = None \<and>
   create_instance module_globals (get_instance module_globals (Suc 0)) db_only_injector ''IDatabase'' =
     Some (Inr sql_instance, db_only_injector) \<and>
   get_instance module_globals (Suc 0) scoped_logger_injector ILogger =
     Some (Inl (creation_failure ILogger out_of_scope), scoped_logger_injector) \<and>
   get_instance module_globals (Suc (Suc 0)) scoped_logger_injector ''IDatabase'' =
     Some (Inr sql_instance, scoped_logger_injector)"
proof -
  have r1: "registrations db_only_injector ''IDatabase'' = Some sql_reg"
    and r2: "registrations scoped_logger_injector ''IDatabase'' = Some sql_reg"
    and r3: "registrations db_only_injector ILogger = None"
    by (simp_all add: db_only_injector_eq scoped_logger_injector_eq ILogger_def)
  have f: "factory sql_reg = None" and i: "implementation sql_reg = Some SqlDatabase"
    and p: "params sql_reg = [(''connection_string'', PyStr ''server=test'')]"
    and l: "life_style sql_reg \<noteq> Singleton" "life_style sql_reg \<noteq> Scoped"
    by (simp_all add: sql_reg_def PerRequest_def Singleton_def Scoped_def)
  have m: "set_logger SqlDatabase = Some assign_logger" by (simp add: SqlDatabase_def)
  have res: "resolve_constructor_params module_globals gi s (params sql_reg) =
      Some (Inr [(''connection_string'', PyStr ''server=test'')], s)" for gi s
    by (simp add: resolve_constructor_params_def p)
  have e: "get_instance module_globals (Suc 0) scoped_logger_injector ILogger =
     Some (Inl (creation_failure ILogger out_of_scope), scoped_logger_injector)"
    by (simp add: scoped_logger_injector_eq get_instance_body_def dispatch_def ILogger_def
        Scoped_def Singleton_def)
  from setter_injection_skipped[OF r1 f i m res sql_construct, where n = "Suc 0"]
    setter_injection_skipped[OF r2 f i m res sql_construct, where n = "Suc 0"]
    r3 e l
  show ?thesis by simp
qed

subsection \<open>Scopes\<close>

text \<open>
  Claim C8.  When the body of a scope returns, normally (\<open>Inr\<close>) or by raising
  (\<open>Inl\<close>), the exit runs: the scope flag is false and the scoped cache is empty.
  The next activation starts from an empty scoped cache, so its first lookup of a scoped
  identity builds the instance anew.
\<close>

theorem scope_exit_clears:
  assumes "body (scope_enter s) = Some (r, t)"
  shows "with_scope body s = Some (r, scope_exit t) \<and>
         \<not> in_scope (scope_exit t) \<and> scoped_instances (scope_exit t) = Map.empty \<and>
         scoped_instances (scope_enter (scope_exit t)) = Map.empty \<and>
         (registrations t k = Some reg \<and> life_style reg = Scoped \<longrightarrow>
            get_instance G (Suc n) (scope_enter (scope_exit t)) k =
              reraise_failed k
                (case create_instance G (get_instance G n) (scope_enter (scope_exit t)) k of
                   None \<Rightarrow> None
                 | Some (Inl e, u) \<Rightarrow> Some (Inl e, u)
                 | Some (Inr v, u) \<Rightarrow>
                     Some (Inr v, u\<lparr>scoped_instances := (scoped_instances u)(k \<mapsto> v)\<rparr>)))"
  using assms
  by (simp add: with_scope_def scope_exit_def scope_enter_def get_instance_body_def dispatch_def
      Scoped_def Singleton_def)

theorem scope_exit_clears_witness:
  "with_scope (\<lambda>s. get_instance module_globals (Suc 0) s ''IEmailService'') dev_injector =
     Some (Inr (PyObj ''MockEmailService'' []), dev_injector) \<and>
   with_scope (\<lambda>s. get_instance module_globals (Suc 0) s ''Nope'') dev_injector =
     Some (Inl (no_registration ''Nope''), dev_injector) \<and>
   \<not> in_scope dev_injector \<and> scoped_instances dev_injector = Map.empty"
proof -
  have 1: "get_instance module_globals (Suc 0) (scope_enter dev_injector) ''IEmailService'' =
      Some (Inr (PyObj ''MockEmailService'' []),
            dev_injector\<lparr>in_scope := True,
              scoped_instances := [''IEmailService'' \<mapsto> PyObj ''MockEmailService'' []]\<rparr>)"
    by (simp add: dev_injector_eq eval_defs)
  have 2: "get_instance module_globals (Suc 0) (scope_enter dev_injector) ''Nope'' =
      Some (Inl (no_registration ''Nope''), dev_injector\<lparr>in_scope := True\<rparr>)"
    by (simp add: dev_injector_eq eval_defs)
  from scope_exit_clears[where body = "\<lambda>s. get_instance module_globals (Suc 0) s ''IEmailService''", OF 1]
    scope_exit_clears[where body = "\<lambda>s. get_instance module_globals (Suc 0) s ''Nope''", OF 2]
  show ?thesis by (simp add: scope_exit_def dev_injector_eq)
qed

subsection \<open>Life styles that are neither \<^verbatim>\<open>Singleton\<close> nor \<^verbatim>\<open>Scoped\<close>\<close>






















subsection \<open>Evaluation of further example states\<close>

lemma file_logger_construct:
  "construct FileLogger [] = Inr (PyObj ''FileLogger'' [(''filename'', PyStr ''app.log'')])"
  by (simp add: FileLogger_def FileLogger_init_def unexpected_def keyword_def)

lemma prod_injector_eq:
  "prod_injector =
     \<lparr>registrations =
        [''ILogger'' \<mapsto> \<lparr>life_style = Singleton, params = [], factory = Some create_file_logger, implementation = None\<rparr>,
         ''IDatabase'' \<mapsto> \<lparr>life_style = Scoped, params = prod_db_params, factory = None, implementation = Some SqlDatabase\<rparr>,
         ''IEmailService'' \<mapsto> \<lparr>life_style = Singleton,
            params = [(''smtp_server'', PyStr ''smtp.example.com''), (''smtp_port'', PyInt 587), (''logger'', PyStr ''@ILogger'')],
            factory = None, implementation = Some SmtpEmailService\<rparr>],
      singleton_instances = Map.empty, scoped_instances = Map.empty, in_scope = False\<rparr>"
  by (simp add: prod_injector_def configure_prod_def register_def init_def prod_db_params_def)

lemma create_file_logger_call: "create_file_logger [] = Inr file_logger"
  by (simp add: create_file_logger_def FileLogger_def FileLogger_init_def unexpected_def keyword_def
      file_logger_def)

lemma prod_logger_lookup:
  "get_instance module_globals (Suc n) prod_injector ''ILogger'' = Some (Inr file_logger, prod_logger_built)"
  by (simp add: prod_injector_eq prod_logger_built_def get_instance_body_def dispatch_def
      create_instance_def create_body_def create_file_logger_call Singleton_def)

lemma audit_injector_reg:
  "registrations audit_injector ''IEmailService'' = Some audit_reg"
  "registrations audit_injector ''ILogger'' =
     Some \<lparr>life_style = Singleton, params = [], factory = Some create_file_logger, implementation = None\<rparr>"
  "singleton_instances audit_injector = Map.empty"
  "scoped_instances audit_injector = Map.empty"
  "in_scope audit_injector = False"
  by (simp_all add: audit_injector_def prod_injector_eq register_def audit_reg_def)

lemma audit_logger_lookup:
  "get_instance module_globals (Suc n) audit_injector ''ILogger'' =
     Some (Inr file_logger, audit_injector\<lparr>singleton_instances := [''ILogger'' \<mapsto> file_logger]\<rparr>)"
  by (simp add: audit_injector_reg get_instance_body_def dispatch_def
      create_instance_def create_body_def create_file_logger_call Singleton_def)

lemma audit_create_fails:
  "create_instance module_globals (get_instance module_globals (Suc 0)) audit_injector ''IEmailService'' =
    Some (Inl (creation_failure ''IEmailService'' (dependency_not_found ''IAudit'')),
          audit_injector\<lparr>singleton_instances := [''ILogger'' \<mapsto> file_logger]\<rparr>)"
proof -
  have g: "module_globals ''ILogger'' = Some ''ILogger''" "module_globals ''IAudit'' = None"
    by (simp_all add: module_globals_def)
  have r: "resolve_constructor_params module_globals (get_instance module_globals (Suc 0))
      audit_injector (params audit_reg) =
    Some (Inl (dependency_not_found ''IAudit''),
          audit_injector\<lparr>singleton_instances := [''ILogger'' \<mapsto> file_logger]\<rparr>)"
    by (simp add: resolve_constructor_params_def audit_reg_def g audit_logger_lookup
        del: get_instance.simps)
  show ?thesis
    by (simp add: create_instance_def create_body_def audit_injector_reg r audit_reg_def[THEN arg_cong, of factory]
        audit_reg_def[THEN arg_cong, of implementation] del: get_instance.simps)
qed

lemma orphan_injector_eq:
  "orphan_injector =
     \<lparr>registrations = [''IDatabase'' \<mapsto> orphan_reg],
      singleton_instances = Map.empty, scoped_instances = Map.empty, in_scope = False\<rparr>"
  by (simp add: orphan_injector_def register_def init_def orphan_reg_def)

subsection \<open>Registering an identity again\<close>

text \<open>
  Claim C3, as the code has it.  A second \<^verbatim>\<open>register\<close> of an identity never fails
  on a class or a callable, and the state it leaves does not depend on the earlier
  binding: the table holds the new registration and both caches are untouched.  A later
  lookup dispatches on the new life style.  It returns the instance that the cache of
  that life style already holds for the identity, if any (an instance built under the
  earlier registration); otherwise it builds with the strategy and the parameters of
  the new registration.
\<close>

theorem register_replaces:
  assumes "isinstance_type impl \<or> callable impl"
  shows "\<exists>s' reg'.
           register s k impl l p = Inr s' \<and>
           register (s\<lparr>registrations := (registrations s)(k := prior)\<rparr>) k impl l p = Inr s' \<and>
           registrations s' = (registrations s)(k \<mapsto> reg') \<and>
           life_style reg' = l \<and>
           params reg' = (case p of None \<Rightarrow> [] | Some ps \<Rightarrow> ps) \<and>
           factory reg' = (case impl of PyFunction f \<Rightarrow> Some f | _ \<Rightarrow> None) \<and>
           implementation reg' = (case impl of PyType c \<Rightarrow> Some c | _ \<Rightarrow> None) \<and>
           singleton_instances s' = singleton_instances s \<and>
           scoped_instances s' = scoped_instances s \<and>
           in_scope s' = in_scope s \<and>
           (l = Singleton \<longrightarrow>
              (\<forall>v. singleton_instances s k = Some v \<longrightarrow>
                   get_instance G (Suc n) s' k = Some (Inr v, s'))) \<and>
           (l = Scoped \<and> in_scope s \<longrightarrow>
              (\<forall>v. scoped_instances s k = Some v \<longrightarrow>
                   get_instance G (Suc n) s' k = Some (Inr v, s'))) \<and>
           create_instance G gi s' k = reraise_failed k (create_body G gi s' reg') \<and>
           (l = Singleton \<and> singleton_instances s k = None \<longrightarrow>
              get_instance G (Suc n) s' k =
                reraise_failed k
                  (case create_instance G (get_instance G n) s' k of
                     None \<Rightarrow> None
                   | Some (Inl e, u) \<Rightarrow> Some (Inl e, u)
                   | Some (Inr v, u) \<Rightarrow>
                       Some (Inr v, u\<lparr>singleton_instances := (singleton_instances u)(k \<mapsto> v)\<rparr>))) \<and>
           (l = Scoped \<and> in_scope s \<and> scoped_instances s k = None \<longrightarrow>
              get_instance G (Suc n) s' k =
                reraise_failed k
                  (case create_instance G (get_instance G n) s' k of
                     None \<Rightarrow> None
                   | Some (Inl e, u) \<Rightarrow> Some (Inl e, u)
                   | Some (Inr v, u) \<Rightarrow>
                       Some (Inr v, u\<lparr>scoped_instances := (scoped_instances u)(k \<mapsto> v)\<rparr>))) \<and>
           (l \<noteq> Singleton \<and> l \<noteq> Scoped \<longrightarrow>
              get_instance G (Suc n) s' k =
                reraise_failed k (create_instance G (get_instance G n) s' k))"
proof -
  define reg' where "reg' =
    \<lparr>life_style = l, params = (case p of None \<Rightarrow> [] | Some ps \<Rightarrow> ps),
     factory = (case impl of PyFunction f \<Rightarrow> Some f | _ \<Rightarrow> None),
     implementation = (case impl of PyType c \<Rightarrow> Some c | _ \<Rightarrow> None)\<rparr>"
  define s' where "s' = s\<lparr>registrations := (registrations s)(k \<mapsto> reg')\<rparr>"
  have r: "register s k impl l p = Inr s'"
    using assms by (cases impl) (simp_all add: register_def reg'_def s'_def)
  have r': "register (s\<lparr>registrations := (registrations s)(k := prior)\<rparr>) k impl l p = Inr s'"
    using assms by (cases impl) (simp_all add: register_def reg'_def s'_def)
  have f: "life_style reg' = l" "params reg' = (case p of None \<Rightarrow> [] | Some ps \<Rightarrow> ps)"
    "factory reg' = (case impl of PyFunction f \<Rightarrow> Some f | _ \<Rightarrow> None)"
    "implementation reg' = (case impl of PyType c \<Rightarrow> Some c | _ \<Rightarrow> None)"
    by (simp_all add: reg'_def)
  have c: "registrations s' = (registrations s)(k \<mapsto> reg')"
    "singleton_instances s' = singleton_instances s"
    "scoped_instances s' = scoped_instances s" "in_scope s' = in_scope s"
    by (simp_all add: s'_def)
  have k: "registrations s' k = Some reg'" by (simp add: c)
  have g1: "l = Singleton \<longrightarrow>
              (\<forall>v. singleton_instances s k = Some v \<longrightarrow>
                   get_instance G (Suc n) s' k = Some (Inr v, s'))"
    using k f(1) c(2) by (simp add: get_instance_body_def dispatch_def)
  have g2: "l = Scoped \<and> in_scope s \<longrightarrow>
              (\<forall>v. scoped_instances s k = Some v \<longrightarrow>
                   get_instance G (Suc n) s' k = Some (Inr v, s'))"
    using k f(1) c(3,4) by (simp add: get_instance_body_def dispatch_def Scoped_def Singleton_def)
  have g3: "create_instance G gi s' k = reraise_failed k (create_body G gi s' reg')"
    using k by (simp add: create_instance_def)
  have g4: "l = Singleton \<and> singleton_instances s k = None \<longrightarrow>
              get_instance G (Suc n) s' k =
                reraise_failed k
                  (case create_instance G (get_instance G n) s' k of
                     None \<Rightarrow> None
                   | Some (Inl e, u) \<Rightarrow> Some (Inl e, u)
                   | Some (Inr v, u) \<Rightarrow>
                       Some (Inr v, u\<lparr>singleton_instances := (singleton_instances u)(k \<mapsto> v)\<rparr>))"
    using k f(1) c(2) by (simp add: get_instance_body_def dispatch_def)
  have g5: "l = Scoped \<and> in_scope s \<and> scoped_instances s k = None \<longrightarrow>
              get_instance G (Suc n) s' k =
                reraise_failed k
                  (case create_instance G (get_instance G n) s' k of
                     None \<Rightarrow> None
                   | Some (Inl e, u) \<Rightarrow> Some (Inl e, u)
                   | Some (Inr v, u) \<Rightarrow>
                       Some (Inr v, u\<lparr>scoped_instances := (scoped_instances u)(k \<mapsto> v)\<rparr>))"
    using k f(1) c(3,4) by (simp add: get_instance_body_def dispatch_def Scoped_def Singleton_def)
  have g6: "l \<noteq> Singleton \<and> l \<noteq> Scoped \<longrightarrow>
              get_instance G (Suc n) s' k =
                reraise_failed k (create_instance G (get_instance G n) s' k)"
    using k f(1) by (simp add: get_instance_body_def dispatch_def)
  show ?thesis
    by (intro exI[of _ s'] exI[of _ reg'] conjI; fact)
qed

theorem register_replaces_witness:
  "register dev_logger_built ''ILogger'' (PyType FileLogger) Singleton None = Inr dev_reregistered \<and>
   get_instance module_globals (Suc 0) dev_reregistered ''ILogger'' =
     Some (Inr (PyObj ''ConsoleLogger'' []), dev_reregistered) \<and>
   register dev_logger_built ''ILogger'' (PyType FileLogger) PerRequest None = Inr dev_transient_logger \<and>
   get_instance module_globals (Suc 0) dev_transient_logger ''ILogger'' =
     Some (Inr (PyObj ''FileLogger'' [(''filename'', PyStr ''app.log'')]), dev_transient_logger)"
proof -
  have i: "isinstance_type (PyType FileLogger) \<or> callable (PyType FileLogger)" by simp
  have r1: "register dev_logger_built ''ILogger'' (PyType FileLogger) Singleton None = Inr dev_reregistered"
    by (simp add: register_def dev_reregistered_def)
  have r2: "register dev_logger_built ''ILogger'' (PyType FileLogger) PerRequest None = Inr dev_transient_logger"
    by (simp add: register_def dev_transient_logger_def)
  have c: "singleton_instances dev_logger_built ''ILogger'' = Some (PyObj ''ConsoleLogger'' [])"
    by (simp add: dev_logger_built_def)
  have l: "PerRequest \<noteq> Singleton" "PerRequest \<noteq> Scoped"
    by (simp_all add: PerRequest_def Singleton_def Scoped_def)
  have b: "create_instance module_globals gi dev_transient_logger ''ILogger'' =
      Some (Inr (PyObj ''FileLogger'' [(''filename'', PyStr ''app.log'')]), dev_transient_logger)" for gi
    by (simp add: create_instance_def create_body_def resolve_constructor_params_def
        dev_transient_logger_def file_logger_construct FileLogger_def[THEN arg_cong, of set_logger])
  from register_replaces[OF i, where s = dev_logger_built and k = "''ILogger''" and l = Singleton
      and p = None and G = module_globals and n = 0]
  have 1: "get_instance module_globals (Suc 0) dev_reregistered ''ILogger'' =
     Some (Inr (PyObj ''ConsoleLogger'' []), dev_reregistered)"
    using c by (auto simp: r1)
  from register_replaces[OF i, where s = dev_logger_built and k = "''ILogger''" and l = PerRequest
      and p = None and G = module_globals and n = 0]
  have 2: "get_instance module_globals (Suc 0) dev_transient_logger ''ILogger'' =
     Some (Inr (PyObj ''FileLogger'' [(''filename'', PyStr ''app.log'')]), dev_transient_logger)"
    using l by (auto simp: r2 b)
  from r1 r2 1 2 show ?thesis by simp
qed

text \<open>
  Claim C3 as stated fails: the logger is registered as a singleton and looked up, then
  registered again as a singleton with the class \<^verbatim>\<open>FileLogger\<close>; the next lookup
  returns the \<^verbatim>\<open>ConsoleLogger\<close> instance of the first registration.
\<close>

theorem reregistered_singleton_is_stale:
  "get_instance module_globals (Suc 0) dev_injector ''ILogger'' =
     Some (Inr (PyObj ''ConsoleLogger'' []), dev_logger_built) \<and>
   register dev_logger_built ''ILogger'' (PyType FileLogger) Singleton None = Inr dev_reregistered \<and>
   get_instance module_globals (Suc 0) dev_reregistered ''ILogger'' =
     Some (Inr (PyObj ''ConsoleLogger'' []), dev_reregistered) \<and>
   construct FileLogger [] = Inr (PyObj ''FileLogger'' [(''filename'', PyStr ''app.log'')])"
  by (simp add: dev_injector_eq dev_logger_built_def dev_reregistered_def file_logger_construct
      eval_defs)

subsection \<open>The resolver\<close>

lemma resolve_loop_append:
  "resolve_loop G gi s (pre @ post) acc =
     (case resolve_loop G gi s pre acc of
        None \<Rightarrow> None
      | Some (Inl e, s1) \<Rightarrow> Some (Inl e, s1)
      | Some (Inr acc', s1) \<Rightarrow> resolve_loop G gi s1 post acc')"
proof (induction pre arbitrary: s acc)
  case Nil
  show ?case by simp
next
  case (Cons p pre)
  obtain n v where p: "p = (n, v)" by (cases p)
  show ?case
    unfolding p
    by (simp add: Cons.IH split: option.splits sum.splits prod.splits exn.splits)
qed

lemma resolve_loop_Cons_success:
  assumes "resolve_loop G gi s ((n, v) # ps) acc = Some (Inr rs, s')"
  shows "\<exists>w s1. resolve_loop G gi s1 ps (AList.update n w acc) = Some (Inr rs, s') \<and>
           (if is_reference v
            then \<exists>d. G (reference_name v) = Some d \<and> gi s d = Some (Inr w, s1)
            else w = v \<and> s1 = s)"
  using assms
  by (auto split: if_splits option.splits sum.splits prod.splits exn.splits)

lemma resolve_loop_other_keys:
  "resolve_loop G gi s ps acc = Some (Inr rs, s') \<Longrightarrow> n \<notin> fst ` set ps \<Longrightarrow>
   map_of rs n = map_of acc n"
proof (induction ps arbitrary: s acc)
  case Nil
  then show ?case by simp
next
  case (Cons p ps)
  obtain m v where p: "p = (m, v)" by (cases p)
  from Cons.prems(1)[unfolded p] obtain w s1
    where "resolve_loop G gi s1 ps (AList.update m w acc) = Some (Inr rs, s')"
    using resolve_loop_Cons_success by blast
  from Cons.IH[OF this] Cons.prems(2) p show ?case
    by (simp add: update_conv')
qed

lemma resolve_loop_keys:
  "resolve_loop G gi s ps acc = Some (Inr rs, s') \<Longrightarrow> distinct (map fst ps) \<Longrightarrow>
   fst ` set ps \<inter> fst ` set acc = {} \<Longrightarrow> map fst rs = map fst acc @ map fst ps"
proof (induction ps arbitrary: s acc)
  case Nil
  then show ?case by simp
next
  case (Cons p ps)
  obtain m v where p: "p = (m, v)" by (cases p)
  from Cons.prems(1)[unfolded p] obtain w s1
    where r: "resolve_loop G gi s1 ps (AList.update m w acc) = Some (Inr rs, s')"
    using resolve_loop_Cons_success by blast
  from Cons.prems(2,3) p have d: "distinct (map fst ps)" and m: "m \<notin> fst ` set acc" "m \<notin> fst ` set ps"
    by auto
  from m(1) have u: "map fst (AList.update m w acc) = map fst acc @ [m]"
    by (simp add: update_keys)
  have "fst ` set ps \<inter> fst ` set (AList.update m w acc) = {}"
    using Cons.prems(3) m(2) p by (auto simp: dom_update)
  from Cons.IH[OF r d this] u p show ?case by simp
qed

lemma resolve_loop_literal:
  "resolve_loop G gi s ps acc = Some (Inr rs, s') \<Longrightarrow> distinct (map fst ps) \<Longrightarrow>
   (n, v) \<in> set ps \<Longrightarrow> \<not> is_reference v \<Longrightarrow> map_of rs n = Some v"
proof (induction ps arbitrary: s acc)
  case Nil
  then show ?case by simp
next
  case (Cons p ps)
  obtain m u where p: "p = (m, u)" by (cases p)
  from Cons.prems(1)[unfolded p] obtain w s1
    where r: "resolve_loop G gi s1 ps (AList.update m w acc) = Some (Inr rs, s')"
      and w: "if is_reference u
            then \<exists>d. G (reference_name u) = Some d \<and> gi s d = Some (Inr w, s1)
            else w = u \<and> s1 = s"
    using resolve_loop_Cons_success by blast
  from Cons.prems(2) p have d: "distinct (map fst ps)" and m: "m \<notin> fst ` set ps" by auto
  show ?case
  proof (cases "(n, v) = (m, u)")
    case True
    with w Cons.prems(4) have "w = v" by simp
    with resolve_loop_other_keys[OF r m] True show ?thesis by (simp add: update_conv')
  next
    case False
    with Cons.prems(3) p have "(n, v) \<in> set ps" by auto
    from Cons.IH[OF r d this Cons.prems(4)] show ?thesis .
  qed
qed

lemma update_fresh: "n \<notin> fst ` set al \<Longrightarrow> AList.update n v al = al @ [(n, v)]"
  by (induction al) auto

lemma resolve_loop_literals:
  "\<forall>x \<in> set ps. \<not> is_reference (snd x) \<Longrightarrow> distinct (map fst ps) \<Longrightarrow>
   fst ` set ps \<inter> fst ` set acc = {} \<Longrightarrow>
   resolve_loop G gi s ps acc = Some (Inr (acc @ ps), s)"
proof (induction ps arbitrary: acc)
  case Nil
  show ?case by simp
next
  case (Cons p ps)
  obtain m u where p: "p = (m, u)" by (cases p)
  from Cons.prems p have l: "\<not> is_reference u" "\<forall>x \<in> set ps. \<not> is_reference (snd x)"
    and d: "distinct (map fst ps)" and m: "m \<notin> fst ` set acc" "m \<notin> fst ` set ps"
    by auto
  have "fst ` set ps \<inter> fst ` set (acc @ [(m, u)]) = {}"
    using Cons.prems(3) m(2) p by auto
  from Cons.IH[OF l(2) d this] l(1) m(1) p show ?case
    by (simp add: update_fresh)
qed

lemma resolve_loop_prefix_keys:
  assumes "resolve_constructor_params G gi s pre = Some (Inr acc, s1)"
    and "distinct (map fst (pre @ (n, v) # post))"
  shows "n \<notin> fst ` set acc"
proof -
  from assms(2) have d: "distinct (map fst pre)" and n: "n \<notin> fst ` set pre" by auto
  from assms(1) have "map fst acc = map fst pre"
    using resolve_loop_keys[of G gi s pre "[]" acc s1] d
    by (simp add: resolve_constructor_params_def)
  then have "fst ` set acc = fst ` set pre" by (metis list.set_map)
  with n show ?thesis by simp
qed

text \<open>
  Claim C6.  For a parameter map (the keys of a dictionary are distinct), entry by
  entry: when the entries before an entry have been resolved, a back-reference whose
  name the namespace binds to an identity is looked up with \<^verbatim>\<open>get_instance\<close> in
  the state those entries left, and when the lookup returns an instance the entry is
  resolved to that instance, in the state the lookup left; a value that is not a
  back-reference is resolved to itself, in the same state.  When the lookup raises, the
  resolution ends with its exception, and a back-reference whose name is not in the
  namespace ends it with the \<^verbatim>\<open>ValueError\<close> \<open>dependency_not_found\<close>.  Hence,
  when the resolver returns, the result has the keys of the map in their order, every
  value that is not a back-reference is unchanged, and every back-reference is replaced
  by the instance that \<^verbatim>\<open>get_instance\<close> returned for it; and a map without
  back-references is returned as it is, in the same state.
\<close>

theorem resolver_substitutes:
  assumes "distinct (map fst ps)"
  shows "(\<forall>rs s'. resolve_constructor_params G gi s ps = Some (Inr rs, s') \<longrightarrow>
            map fst rs = map fst ps \<and>
            (\<forall>n v. (n, v) \<in> set ps \<and> \<not> is_reference v \<longrightarrow> map_of rs n = Some v) \<and>
            (\<forall>pre n v post. ps = pre @ (n, v) # post \<and> is_reference v \<longrightarrow>
               (\<exists>d acc s1 s2 inst.
                  resolve_constructor_params G gi s pre = Some (Inr acc, s1) \<and>
                  G (reference_name v) = Some d \<and> gi s1 d = Some (Inr inst, s2) \<and>
                  map_of rs n = Some inst))) \<and>
         ((\<forall>x \<in> set ps. \<not> is_reference (snd x)) \<longrightarrow>
            resolve_constructor_params G gi s ps = Some (Inr ps, s)) \<and>
         (\<forall>pre n v post acc s1.
            ps = pre @ (n, v) # post \<and> is_reference v \<and> G (reference_name v) = None \<and>
            resolve_constructor_params G gi s pre = Some (Inr acc, s1) \<longrightarrow>
            resolve_constructor_params G gi s ps =
              Some (Inl (dependency_not_found (reference_name v)), s1)) \<and>
         (\<forall>pre n v post acc s1 d inst s2.
            ps = pre @ (n, v) # post \<and> is_reference v \<and> G (reference_name v) = Some d \<and>
            resolve_constructor_params G gi s pre = Some (Inr acc, s1) \<and>
            gi s1 d = Some (Inr inst, s2) \<longrightarrow>
            resolve_constructor_params G gi s (pre @ [(n, v)]) = Some (Inr (acc @ [(n, inst)]), s2)) \<and>
         (\<forall>pre n v post acc s1.
            ps = pre @ (n, v) # post \<and> \<not> is_reference v \<and>
            resolve_constructor_params G gi s pre = Some (Inr acc, s1) \<longrightarrow>
            resolve_constructor_params G gi s (pre @ [(n, v)]) = Some (Inr (acc @ [(n, v)]), s1)) \<and>
         (\<forall>pre n v post acc s1 d e s2.
            ps = pre @ (n, v) # post \<and> is_reference v \<and> G (reference_name v) = Some d \<and>
            resolve_constructor_params G gi s pre = Some (Inr acc, s1) \<and>
            gi s1 d = Some (Inl e, s2) \<longrightarrow>
            resolve_constructor_params G gi s ps =
              Some (Inl (case e of KeyError m \<Rightarrow> dependency_not_found (reference_name v) | _ \<Rightarrow> e), s2))"
proof -
  have a: "map fst rs = map fst ps"
    if "resolve_constructor_params G gi s ps = Some (Inr rs, s')" for rs s'
    using resolve_loop_keys[OF that[unfolded resolve_constructor_params_def] assms] by simp
  have b: "map_of rs n = Some v"
    if "resolve_constructor_params G gi s ps = Some (Inr rs, s')" "(n, v) \<in> set ps" "\<not> is_reference v"
    for rs s' n v
    using resolve_loop_literal[OF that(1)[unfolded resolve_constructor_params_def] assms that(2,3)] .
  have c: "\<exists>d acc s1 s2 inst.
                  resolve_constructor_params G gi s pre = Some (Inr acc, s1) \<and>
                  G (reference_name v) = Some d \<and> gi s1 d = Some (Inr inst, s2) \<and>
                  map_of rs n = Some inst"
    if r: "resolve_constructor_params G gi s ps = Some (Inr rs, s')"
      and ps: "ps = pre @ (n, v) # post" and v: "is_reference v"
    for rs s' pre n v post
  proof -
    from r ps obtain acc s1 where pre: "resolve_loop G gi s pre [] = Some (Inr acc, s1)"
      and rest: "resolve_loop G gi s1 ((n, v) # post) acc = Some (Inr rs, s')"
      by (auto simp: resolve_constructor_params_def resolve_loop_append
          split: option.splits sum.splits prod.splits)
    from resolve_loop_Cons_success[OF rest] v obtain inst s2 d
      where post: "resolve_loop G gi s2 post (AList.update n inst acc) = Some (Inr rs, s')"
        and d: "G (reference_name v) = Some d" "gi s1 d = Some (Inr inst, s2)"
      by auto
    from assms ps have "n \<notin> fst ` set post" by auto
    from resolve_loop_other_keys[OF post this] have "map_of rs n = Some inst"
      by (simp add: update_conv')
    with pre d show ?thesis by (auto simp: resolve_constructor_params_def)
  qed
  have d: "resolve_constructor_params G gi s ps = Some (Inr ps, s)"
    if "\<forall>x \<in> set ps. \<not> is_reference (snd x)"
    using resolve_loop_literals[OF that assms, of "[]"] by (simp add: resolve_constructor_params_def)
  have e: "resolve_constructor_params G gi s ps =
              Some (Inl (dependency_not_found (reference_name v)), s1)"
    if "ps = pre @ (n, v) # post" "is_reference v" "G (reference_name v) = None"
      "resolve_constructor_params G gi s pre = Some (Inr acc, s1)"
    for pre n v post acc s1
    using that by (simp add: resolve_constructor_params_def resolve_loop_append)
  have f: "resolve_constructor_params G gi s (pre @ [(n, v)]) = Some (Inr (acc @ [(n, inst)]), s2)"
    if "ps = pre @ (n, v) # post" "is_reference v" "G (reference_name v) = Some d"
      "resolve_constructor_params G gi s pre = Some (Inr acc, s1)" "gi s1 d = Some (Inr inst, s2)"
    for pre n v post acc s1 d inst s2
  proof -
    from that(4) assms[unfolded that(1)] have "n \<notin> fst ` set acc" by (rule resolve_loop_prefix_keys)
    then have "AList.update n inst acc = acc @ [(n, inst)]" by (rule update_fresh)
    with that(2-5) show ?thesis
      by (simp add: resolve_constructor_params_def resolve_loop_append)
  qed
  have g: "resolve_constructor_params G gi s (pre @ [(n, v)]) = Some (Inr (acc @ [(n, v)]), s1)"
    if "ps = pre @ (n, v) # post" "\<not> is_reference v"
      "resolve_constructor_params G gi s pre = Some (Inr acc, s1)"
    for pre n v post acc s1
  proof -
    from that(3) assms[unfolded that(1)] have "n \<notin> fst ` set acc" by (rule resolve_loop_prefix_keys)
    then have "AList.update n v acc = acc @ [(n, v)]" by (rule update_fresh)
    with that(2,3) show ?thesis
      by (simp add: resolve_constructor_params_def resolve_loop_append)
  qed
  have h: "resolve_constructor_params G gi s ps =
              Some (Inl (case e of KeyError m \<Rightarrow> dependency_not_found (reference_name v) | _ \<Rightarrow> e), s2)"
    if "ps = pre @ (n, v) # post" "is_reference v" "G (reference_name v) = Some d"
      "resolve_constructor_params G gi s pre = Some (Inr acc, s1)" "gi s1 d = Some (Inl e, s2)"
    for pre n v post acc s1 d e s2
    using that by (cases e) (simp_all add: resolve_constructor_params_def resolve_loop_append)
  have 1: "\<forall>rs s'. resolve_constructor_params G gi s ps = Some (Inr rs, s') \<longrightarrow>
            map fst rs = map fst ps \<and>
            (\<forall>n v. (n, v) \<in> set ps \<and> \<not> is_reference v \<longrightarrow> map_of rs n = Some v) \<and>
            (\<forall>pre n v post. ps = pre @ (n, v) # post \<and> is_reference v \<longrightarrow>
               (\<exists>d acc s1 s2 inst.
                  resolve_constructor_params G gi s pre = Some (Inr acc, s1) \<and>
                  G (reference_name v) = Some d \<and> gi s1 d = Some (Inr inst, s2) \<and>
                  map_of rs n = Some inst))"
    using a b c by blast
  have 2: "(\<forall>x \<in> set ps. \<not> is_reference (snd x)) \<longrightarrow>
            resolve_constructor_params G gi s ps = Some (Inr ps, s)"
    using d by blast
  have 3: "\<forall>pre n v post acc s1.
            ps = pre @ (n, v) # post \<and> is_reference v \<and> G (reference_name v) = None \<and>
            resolve_constructor_params G gi s pre = Some (Inr acc, s1) \<longrightarrow>
            resolve_constructor_params G gi s ps =
              Some (Inl (dependency_not_found (reference_name v)), s1)"
    using e by blast
  have 4: "\<forall>pre n v post acc s1 d inst s2.
            ps = pre @ (n, v) # post \<and> is_reference v \<and> G (reference_name v) = Some d \<and>
            resolve_constructor_params G gi s pre = Some (Inr acc, s1) \<and>
            gi s1 d = Some (Inr inst, s2) \<longrightarrow>
            resolve_constructor_params G gi s (pre @ [(n, v)]) = Some (Inr (acc @ [(n, inst)]), s2)"
    using f by blast
  have 5: "\<forall>pre n v post acc s1.
            ps = pre @ (n, v) # post \<and> \<not> is_reference v \<and>
            resolve_constructor_params G gi s pre = Some (Inr acc, s1) \<longrightarrow>
            resolve_constructor_params G gi s (pre @ [(n, v)]) = Some (Inr (acc @ [(n, v)]), s1)"
    using g by blast
  have 6: "\<forall>pre n v post acc s1 d e s2.
            ps = pre @ (n, v) # post \<and> is_reference v \<and> G (reference_name v) = Some d \<and>
            resolve_constructor_params G gi s pre = Some (Inr acc, s1) \<and>
            gi s1 d = Some (Inl e, s2) \<longrightarrow>
            resolve_constructor_params G gi s ps =
              Some (Inl (case e of KeyError m \<Rightarrow> dependency_not_found (reference_name v) | _ \<Rightarrow> e), s2)"
    using h by blast
  from 1 2 3 4 5 6 show ?thesis by (intro conjI)
qed


theorem resolver_substitutes_witness:
  "distinct (map fst prod_db_params) \<and>
   resolve_constructor_params module_globals (get_instance module_globals (Suc 0)) prod_injector
       prod_db_params =
     Some (Inr [(''connection_string'', PyStr ''server=prod;database=app''), (''logger'', file_logger)],
           prod_logger_built) \<and>
   resolve_constructor_params module_globals (get_instance module_globals (Suc 0)) prod_injector
       [(''retries'', PyInt 3)] = Some (Inr [(''retries'', PyInt 3)], prod_injector) \<and>
   resolve_constructor_params module_globals (get_instance module_globals (Suc 0)) prod_injector
       audit_params = Some (Inl (dependency_not_found ''IAudit''), prod_injector) \<and>
   resolve_constructor_params module_globals (get_instance module_globals (Suc 0)) orphan_injector
       prod_db_params = Some (Inl (no_registration ''ILogger''), orphan_injector)"
proof -
  let ?gi = "get_instance module_globals (Suc 0)"
  let ?cs = "(''connection_string'', PyStr ''server=prod;database=app'')"
  have d: "distinct (map fst prod_db_params)" "distinct (map fst audit_params)"
    "distinct (map fst [(''retries'', PyInt 3)])" "distinct (map fst [?cs])"
    by (simp_all add: prod_db_params_def audit_params_def)
  have g: "module_globals ''ILogger'' = Some ''ILogger''" "module_globals ''IAudit'' = None"
    by (simp_all add: module_globals_def)
  have p: "prod_db_params = [?cs] @ (''logger'', PyStr ''@ILogger'') # []"
    by (simp add: prod_db_params_def)
  have r: "is_reference (PyStr ''@ILogger'')"
    "module_globals (reference_name (PyStr ''@ILogger'')) = Some ''ILogger''"
    by (simp_all add: g)
  have 0: "resolve_constructor_params module_globals ?gi s [?cs] = Some (Inr [?cs], s)" for s
    using resolver_substitutes[OF d(4), of module_globals ?gi s] by simp
  have l: "?gi prod_injector ''ILogger'' = Some (Inr file_logger, prod_logger_built)"
    by (rule prod_logger_lookup)
  have "\<forall>pre n v post acc s1 d inst s2.
            prod_db_params = pre @ (n, v) # post \<and> is_reference v \<and> module_globals (reference_name v) = Some d \<and>
            resolve_constructor_params module_globals ?gi prod_injector pre = Some (Inr acc, s1) \<and>
            ?gi s1 d = Some (Inr inst, s2) \<longrightarrow>
            resolve_constructor_params module_globals ?gi prod_injector (pre @ [(n, v)]) =
              Some (Inr (acc @ [(n, inst)]), s2)"
    using resolver_substitutes[OF d(1), of module_globals ?gi prod_injector]
    by (elim conjE) assumption
  from this[rule_format, where pre = "[?cs]" and n = "''logger''" and v = "PyStr ''@ILogger''"
      and post = "[]" and acc = "[?cs]" and ?s1.0 = prod_injector and d = "''ILogger''"
      and inst = file_logger and ?s2.0 = prod_logger_built] p r 0 l
  have "resolve_constructor_params module_globals ?gi prod_injector ([?cs] @ [(''logger'', PyStr ''@ILogger'')]) =
     Some (Inr ([?cs] @ [(''logger'', file_logger)]), prod_logger_built)"
    by (simp del: get_instance.simps)
  then have 1: "resolve_constructor_params module_globals ?gi prod_injector prod_db_params =
     Some (Inr [?cs, (''logger'', file_logger)], prod_logger_built)"
    by (simp add: prod_db_params_def del: get_instance.simps)
  have 2: "resolve_constructor_params module_globals ?gi prod_injector [(''retries'', PyInt 3)] =
      Some (Inr [(''retries'', PyInt 3)], prod_injector)"
    using resolver_substitutes[OF d(3), of module_globals ?gi prod_injector] by simp
  have 3: "resolve_constructor_params module_globals ?gi prod_injector audit_params =
      Some (Inl (dependency_not_found ''IAudit''), prod_injector)"
  proof -
    have "audit_params = [(''retries'', PyInt 3)] @ (''audit'', PyStr ''@IAudit'') # []"
      by (simp add: audit_params_def)
    moreover have "is_reference (PyStr ''@IAudit'')" by simp
    moreover have "module_globals (reference_name (PyStr ''@IAudit'')) = None"
      by (simp add: g)
    moreover have "\<forall>pre n v post acc s1.
            audit_params = pre @ (n, v) # post \<and> is_reference v \<and> module_globals (reference_name v) = None \<and>
            resolve_constructor_params module_globals ?gi prod_injector pre = Some (Inr acc, s1) \<longrightarrow>
            resolve_constructor_params module_globals ?gi prod_injector audit_params =
              Some (Inl (dependency_not_found (reference_name v)), s1)"
      using resolver_substitutes[OF d(2), of module_globals ?gi prod_injector]
      by (elim conjE) assumption
    ultimately have "resolve_constructor_params module_globals ?gi prod_injector audit_params =
        Some (Inl (dependency_not_found (reference_name (PyStr ''@IAudit''))), prod_injector)"
      using 2 by blast
    then show ?thesis by simp
  qed
  have 4: "resolve_constructor_params module_globals ?gi orphan_injector prod_db_params =
      Some (Inl (no_registration ''ILogger''), orphan_injector)"
  proof -
    have f: "?gi orphan_injector ''ILogger'' = Some (Inl (no_registration ''ILogger''), orphan_injector)"
      by (simp add: get_instance_body_def orphan_injector_eq)
    have "\<forall>pre n v post acc s1 d e s2.
            prod_db_params = pre @ (n, v) # post \<and> is_reference v \<and> module_globals (reference_name v) = Some d \<and>
            resolve_constructor_params module_globals ?gi orphan_injector pre = Some (Inr acc, s1) \<and>
            ?gi s1 d = Some (Inl e, s2) \<longrightarrow>
            resolve_constructor_params module_globals ?gi orphan_injector prod_db_params =
              Some (Inl (case e of KeyError m \<Rightarrow> dependency_not_found (reference_name v) | _ \<Rightarrow> e), s2)"
      using resolver_substitutes[OF d(1), of module_globals ?gi orphan_injector]
      by (elim conjE) assumption
    from this[rule_format, where pre = "[?cs]" and n = "''logger''" and v = "PyStr ''@ILogger''"
        and post = "[]" and acc = "[?cs]" and ?s1.0 = orphan_injector and d = "''ILogger''"
        and e = "no_registration ''ILogger''" and ?s2.0 = orphan_injector] p r 0 f
    have "resolve_constructor_params module_globals ?gi orphan_injector prod_db_params =
        Some (Inl (case no_registration ''ILogger'' of
                     KeyError m \<Rightarrow> dependency_not_found (reference_name (PyStr ''@ILogger''))
                   | _ \<Rightarrow> no_registration ''ILogger''), orphan_injector)"
      by (simp del: get_instance.simps)
    then show ?thesis by (simp add: no_registration_def del: get_instance.simps)
  qed
  from d(1) 1 2 3 4 show ?thesis by (intro conjI)
qed

subsection \<open>Failed constructions\<close>

lemma below_refl: "below rank b s s" by (simp add: below_def)

lemma below_trans: "below rank b s s1 \<Longrightarrow> below rank b s1 s2 \<Longrightarrow> below rank b s s2"
  unfolding below_def by metis

lemma below_mono: "below rank b s s' \<Longrightarrow> b \<le> b' \<Longrightarrow> below rank b' s s'"
  unfolding below_def by (meson less_le_trans)

lemma acyclic_by_frame: "frame s s' \<Longrightarrow> acyclic_by G s rank \<Longrightarrow> acyclic_by G s' rank"
  by (simp add: frame_def acyclic_by_def)

lemma rankedD:
  "ranked G rank gi \<Longrightarrow> acyclic_by G s rank \<Longrightarrow> gi s j = Some (r, s') \<Longrightarrow>
   below rank (Suc (rank j)) s s'"
  unfolding ranked_def by blast

lemma resolve_loop_below:
  assumes "ranked G rank gi"
  shows "acyclic_by G s rank \<Longrightarrow>
    \<forall>p v d. (p, v) \<in> set ps \<and> is_reference v \<and> G (reference_name v) = Some d \<longrightarrow> rank d < b \<Longrightarrow>
    resolve_loop G gi s ps acc = Some (r, s') \<Longrightarrow> below rank b s s'"
proof (induction ps arbitrary: s acc)
  case Nil
  then show ?case by (simp add: below_refl)
next
  case (Cons q ps)
  obtain n v where q: "q = (n, v)" by (cases q)
  from Cons.prems(2) have rest:
    "\<forall>p v d. (p, v) \<in> set ps \<and> is_reference v \<and> G (reference_name v) = Some d \<longrightarrow> rank d < b"
    by auto
  show ?case
  proof (cases "is_reference v")
    case False
    with Cons.prems(3) q have "resolve_loop G gi s ps (AList.update n v acc) = Some (r, s')" by simp
    from Cons.IH[OF Cons.prems(1) rest this] show ?thesis .
  next
    case True
    show ?thesis
    proof (cases "G (reference_name v)")
      case None
      with Cons.prems(3) True q show ?thesis by (simp add: below_refl)
    next
      case (Some d)
      with Cons.prems(2) True q have d: "rank d < b" by auto
      show ?thesis
      proof (cases "gi s d")
        case None
        with Cons.prems(3) True q Some show ?thesis by simp
      next
        case gi: (Some a)
        obtain x s1 where a: "a = (x, s1)" by (cases a)
        from assms gi a have f1: "frame s s1" by (auto simp: ranked_def dest: framedD)
        from rankedD[OF assms Cons.prems(1)] gi a have "below rank (Suc (rank d)) s s1" by simp
        with d have b1: "below rank b s s1" by (auto intro: below_mono)
        show ?thesis
        proof (cases x)
          case (Inl e)
          with Cons.prems(3) True q Some gi a b1 show ?thesis
            by (cases e) auto
        next
          case (Inr w)
          with Cons.prems(3) True q Some gi a
          have "resolve_loop G gi s1 ps (AList.update n w acc) = Some (r, s')" by simp
          from Cons.IH[OF acyclic_by_frame[OF f1 Cons.prems(1)] rest this] b1
          show ?thesis by (rule below_trans[rotated])
        qed
      qed
    qed
  qed
qed

lemma inject_logger_below:
  assumes "ranked G rank gi" and "acyclic_by G s rank" and "rank ILogger < b"
    and "inject_logger gi s m i = Some (r, s')"
  shows "below rank b s s'"
proof (cases "gi s ILogger")
  case None
  with assms(4) show ?thesis by (simp add: inject_logger_def)
next
  case (Some a)
  obtain x s1 where a: "a = (x, s1)" by (cases a)
  from rankedD[OF assms(1,2)] Some a have "below rank (Suc (rank ILogger)) s s1" by simp
  with assms(3) have "below rank b s s1" by (auto intro: below_mono)
  moreover from assms(4) Some a have "s' = s1"
    by (auto simp: inject_logger_def split: sum.splits prod.splits option.splits if_splits)
  ultimately show ?thesis by simp
qed

lemma create_body_below:
  assumes "ranked G rank gi" and ac: "acyclic_by G s rank" and reg: "registrations s j = Some reg"
    and c: "create_body G gi s reg = Some (r, s')"
  shows "below rank (rank j) s s'"
proof (cases "factory reg")
  case (Some f)
  with c show ?thesis by (auto simp: create_body_def below_refl split: sum.splits)
next
  case None
  show ?thesis
  proof (cases "implementation reg")
    case no: None
    with None c show ?thesis by (simp add: create_body_def below_refl)
  next
    case (Some cl)
    from ac reg None Some have
      deps: "\<forall>p v d. (p, v) \<in> set (params reg) \<and> is_reference v \<and> G (reference_name v) = Some d \<longrightarrow>
           rank d < rank j"
      and lg: "set_logger cl \<noteq> None \<longrightarrow> rank ILogger < rank j"
      unfolding acyclic_by_def by blast+
    show ?thesis
    proof (cases "resolve_loop G gi s (params reg) []")
      case nr: None
      with None Some c show ?thesis
        by (simp add: create_body_def resolve_constructor_params_def)
    next
      case sr: (Some a)
      obtain x s1 where a: "a = (x, s1)" by (cases a)
      from resolve_loop_below[OF assms(1) ac deps] sr a have b1: "below rank (rank j) s s1" by simp
      from assms(1) have "framed gi" by (simp add: ranked_def)
      from resolve_loop_frame[OF this] sr a have f1: "frame s s1" by simp
      show ?thesis
      proof (cases x)
        case (Inl e)
        with None Some sr a c b1 show ?thesis
          by (simp add: create_body_def resolve_constructor_params_def)
      next
        case (Inr cp)
        show ?thesis
        proof (cases "construct cl cp")
          case il: (Inl e)
          with Inr None Some sr a c b1 show ?thesis
            by (simp add: create_body_def resolve_constructor_params_def)
        next
          case ir: (Inr inst)
          show ?thesis
          proof (cases "set_logger cl")
            case nl: None
            with ir Inr None Some sr a c b1 show ?thesis
              by (simp add: create_body_def resolve_constructor_params_def)
          next
            case sl: (Some m)
            with ir Inr None Some sr a c
            have "inject_logger gi s1 m inst = Some (r, s')"
              by (simp add: create_body_def resolve_constructor_params_def)
            from inject_logger_below[OF assms(1) acyclic_by_frame[OF f1 ac] _ this] lg sl b1
            show ?thesis by (auto intro: below_trans)
          qed
        qed
      qed
    qed
  qed
qed

lemma create_instance_below:
  assumes "ranked G rank gi" and "acyclic_by G s rank"
    and "create_instance G gi s j = Some (r, s')"
  shows "below rank (rank j) s s'"
proof (cases "registrations s j")
  case None
  with assms(3) show ?thesis by (simp add: create_instance_def below_refl)
next
  case (Some reg)
  with assms(3) obtain y where "create_body G gi s reg = Some (y, s')"
    by (auto simp: create_instance_def dest: reraise_failed_state)
  from create_body_below[OF assms(1,2) Some this] show ?thesis .
qed

lemma below_upd:
  "below rank (rank j) s s' \<Longrightarrow>
   below rank (Suc (rank j)) s (s'\<lparr>singleton_instances := (singleton_instances s')(j \<mapsto> v)\<rparr>)"
  "below rank (rank j) s s' \<Longrightarrow>
   below rank (Suc (rank j)) s (s'\<lparr>scoped_instances := (scoped_instances s')(j \<mapsto> v)\<rparr>)"
  unfolding below_def by (auto simp: less_Suc_eq)

lemma dispatch_below:
  assumes "ranked G rank gi" and "acyclic_by G s rank"
    and d: "dispatch G gi s j l = Some (r, s')"
  shows "below rank (Suc (rank j)) s s' \<and> (\<forall>e. r = Inl e \<longrightarrow> below rank (rank j) s s')"
proof -
  note cb = create_instance_below[OF assms(1,2)]
  have up: "below rank (rank j) s s' \<Longrightarrow> below rank (Suc (rank j)) s s'" for s'
    by (erule below_mono) simp
  consider (hit) "dispatch G gi s j l = Some (r, s)" "s' = s"
    | (fail) e where "create_instance G gi s j = Some (Inl e, s')" "r = Inl e"
    | (single) v s1 where "create_instance G gi s j = Some (Inr v, s1)" "r = Inr v"
        "s' = s1\<lparr>singleton_instances := (singleton_instances s1)(j \<mapsto> v)\<rparr>"
    | (scoped) v s1 where "create_instance G gi s j = Some (Inr v, s1)" "r = Inr v"
        "s' = s1\<lparr>scoped_instances := (scoped_instances s1)(j \<mapsto> v)\<rparr>"
    | (other) "create_instance G gi s j = Some (r, s')"
    using d
    by (auto simp: dispatch_def split: if_splits option.splits sum.splits prod.splits)
  then show ?thesis
  proof cases
    case hit
    then show ?thesis by (simp add: below_refl)
  next
    case fail
    from cb[OF fail(1)] show ?thesis by (simp add: up)
  next
    case single
    from cb[OF single(1)] single(2,3) show ?thesis by (simp add: below_upd)
  next
    case scoped
    from cb[OF scoped(1)] scoped(2,3) show ?thesis by (simp add: below_upd)
  next
    case other
    from cb[OF other] show ?thesis by (simp add: up)
  qed
qed

lemma get_instance_body_below:
  assumes "ranked G rank gi" and "acyclic_by G s rank"
    and b: "get_instance_body G gi s j = Some (r, s')"
  shows "below rank (Suc (rank j)) s s' \<and> (\<forall>e. r = Inl e \<longrightarrow> below rank (rank j) s s')"
proof (cases "registrations s j")
  case None
  with b show ?thesis by (simp add: get_instance_body_def below_refl)
next
  case (Some reg)
  with b have rr: "reraise_failed j (dispatch G gi s j (life_style reg)) = Some (r, s')"
    by (simp add: get_instance_body_def)
  then obtain y where y: "dispatch G gi s j (life_style reg) = Some (y, s')"
    by (auto dest: reraise_failed_state)
  from rr y have "(\<exists>e. r = Inl e) \<longrightarrow> (\<exists>e. y = Inl e)"
    by (cases y) auto
  with dispatch_below[OF assms(1,2) y] show ?thesis by auto
qed

lemma get_instance_ranked: "ranked G rank (get_instance G n)"
proof (induction n)
  case 0
  show ?case by (simp add: ranked_def framed_def frame_refl below_refl)
next
  case (Suc n)
  from get_instance_body_below[OF Suc] get_instance_framed[of G "Suc n"]
  show ?case unfolding ranked_def by auto
qed

lemma failed_lookup_below:
  assumes "acyclic_by G s rank" and "get_instance G n s k = Some (Inl e, s')"
  shows "singleton_instances s' k = singleton_instances s k \<and>
         scoped_instances s' k = scoped_instances s k"
proof (cases n)
  case 0
  with assms(2) show ?thesis by simp
next
  case (Suc m)
  with assms(2) have "get_instance_body G (get_instance G m) s k = Some (Inl e, s')" by simp
  from get_instance_body_below[OF get_instance_ranked assms(1) this]
  have "below rank (rank k) s s'" by simp
  then show ?thesis unfolding below_def by blast
qed

lemma audit_acyclic: "acyclic_by module_globals audit_injector logger_first"
proof -
  have g: "module_globals n = Some d \<Longrightarrow> logger_first d < 1 \<or> d \<noteq> ''ILogger''" for n d
    by (simp add: logger_first_def)
  have r: "registrations audit_injector j = Some reg \<Longrightarrow> factory reg = None \<Longrightarrow>
    j \<noteq> ''ILogger'' \<and>
    (\<forall>p v. (p, v) \<in> set (params reg) \<and> is_reference v \<longrightarrow> reference_name v \<in> {''ILogger'', ''IAudit''})"
    for j reg
    by (auto simp: audit_injector_def prod_injector_eq register_def prod_db_params_def
        split: if_splits)
  have m: "module_globals ''ILogger'' = Some ''ILogger''" "module_globals ''IAudit'' = None"
    by (simp_all add: module_globals_def)
  show ?thesis
    unfolding acyclic_by_def
  proof (intro allI impI, elim conjE)
    fix j reg c
    assume a: "registrations audit_injector j = Some reg" "factory reg = None"
    from r[OF a] have j: "logger_first j = 1" by (simp add: logger_first_def)
    have "logger_first d < logger_first j"
      if "(p, v) \<in> set (params reg)" "is_reference v" "module_globals (reference_name v) = Some d"
      for p v d
    proof -
      from r[OF a] that(1,2) have "reference_name v \<in> {''ILogger'', ''IAudit''}" by blast
      with that(3) m have "d = ''ILogger''" by auto
      with j show ?thesis by (simp add: logger_first_def)
    qed
    moreover have "logger_first ILogger < logger_first j"
      using j by (simp add: logger_first_def ILogger_def)
    ultimately show "(\<forall>p v d. (p, v) \<in> set (params reg) \<and> is_reference v \<and>
          module_globals (reference_name v) = Some d \<longrightarrow> logger_first d < logger_first j) \<and>
        (set_logger c \<noteq> None \<longrightarrow> logger_first ILogger < logger_first j)"
      by blast
  qed
qed

lemma resolve_loop_literal_prefix:
  "\<forall>x \<in> set lits. \<not> is_reference (snd x) \<Longrightarrow>
   \<exists>acc'. resolve_loop G gi s lits acc = Some (Inr acc', s)"
  by (induction lits arbitrary: acc) auto

lemma resolve_first_reference_fails:
  assumes "\<forall>x \<in> set lits. \<not> is_reference (snd x)" and "is_reference v"
    and "G (reference_name v) = None \<or>
         (\<exists>d. G (reference_name v) = Some d \<and> registrations s d = None \<and> 0 < n)"
  shows "resolve_constructor_params G (get_instance G n) s (lits @ (p, v) # rest) =
           Some (Inl (unknown_dependency G v), s)"
proof -
  from resolve_loop_literal_prefix[OF assms(1)] obtain acc'
    where l: "resolve_loop G (get_instance G n) s lits [] = Some (Inr acc', s)" by blast
  have "resolve_loop G (get_instance G n) s ((p, v) # rest) acc' =
      Some (Inl (unknown_dependency G v), s)"
  proof (cases "G (reference_name v)")
    case None
    with assms(2) show ?thesis by (simp add: unknown_dependency_def)
  next
    case (Some d)
    with assms(3) have u: "registrations s d = None" and "0 < n" by auto
    then obtain n' where "n = Suc n'" by (cases n) auto
    with u have "get_instance G n s d = Some (Inl (no_registration d), s)"
      by (simp add: get_instance_body_def)
    with assms(2) Some show ?thesis
      by (simp add: unknown_dependency_def no_registration_def)
  qed
  with l show ?thesis
    by (simp add: resolve_constructor_params_def resolve_loop_append)
qed

text \<open>
  Claim C4, as the code has it.  When the construction for a lookup fails, the lookup
  raises the wrapped exception and inserts nothing itself: it leaves the injector as the
  failed construction left it.  That state differs from the state before at most by
  cache entries that were absent before, for identities registered with the life style
  of the cache: the dependencies that were built and cached before the failure.  When
  the registrations have no cycle of dependencies, a failed lookup leaves the entries of
  its own identity in both caches as they were.  When the first back-reference among the
  parameters cannot be followed, no dependency has been built and the injector is
  unchanged.
\<close>

theorem failed_build_inserts_nothing:
  assumes "registrations s k = Some reg"
    and "life_style reg = Singleton \<longrightarrow> singleton_instances s k = None"
    and "life_style reg = Scoped \<longrightarrow> in_scope s \<and> scoped_instances s k = None"
  shows "(\<forall>e sc. create_instance G (get_instance G n) s k = Some (Inl e, sc) \<longrightarrow>
            get_instance G (Suc n) s k = Some (Inl (creation_failure k e), sc) \<and> frame s sc) \<and>
         (\<forall>rank e s'. acyclic_by G s rank \<and> get_instance G (Suc n) s k = Some (Inl e, s') \<longrightarrow>
            singleton_instances s' k = singleton_instances s k \<and>
            scoped_instances s' k = scoped_instances s k) \<and>
         (factory reg = None \<and> implementation reg = Some c \<and>
          params reg = lits @ (p, v) # rest \<and> (\<forall>x \<in> set lits. \<not> is_reference (snd x)) \<and>
          is_reference v \<and>
          (G (reference_name v) = None \<or>
           (\<exists>d. G (reference_name v) = Some d \<and> registrations s d = None \<and> 0 < n)) \<longrightarrow>
            get_instance G (Suc n) s k =
              Some (Inl (creation_failure k (creation_failure k (unknown_dependency G v))), s))"
proof -
  have a: "get_instance G (Suc n) s k = Some (Inl (creation_failure k e), sc)"
    if "create_instance G (get_instance G n) s k = Some (Inl e, sc)" for e sc
    using that assms
    by (simp add: get_instance_body_def dispatch_def Singleton_def Scoped_def)
  have b: "frame s sc"
    if "create_instance G (get_instance G n) s k = Some (Inl e, sc)" for e sc
    using that by (rule create_instance_frame[OF get_instance_framed])
  have c: "get_instance G (Suc n) s k =
      Some (Inl (creation_failure k (creation_failure k (unknown_dependency G v))), s)"
    if "factory reg = None" "implementation reg = Some c" "params reg = lits @ (p, v) # rest"
      "\<forall>x \<in> set lits. \<not> is_reference (snd x)" "is_reference v"
      "G (reference_name v) = None \<or>
         (\<exists>d. G (reference_name v) = Some d \<and> registrations s d = None \<and> 0 < n)"
  proof -
    from resolve_first_reference_fails[where G = G and s = s and n = n and p = p and rest = rest,
        OF that(4,5,6)] that(1,2,3) assms(1)
    have "create_instance G (get_instance G n) s k =
        Some (Inl (creation_failure k (unknown_dependency G v)), s)"
      by (simp add: create_instance_def create_body_def)
    then show ?thesis by (rule a)
  qed
  have d: "singleton_instances s' k = singleton_instances s k \<and>
            scoped_instances s' k = scoped_instances s k"
    if "acyclic_by G s rank" "get_instance G (Suc n) s k = Some (Inl e, s')" for rank e s'
    using that by (rule failed_lookup_below)
  have 1: "\<forall>e sc. create_instance G (get_instance G n) s k = Some (Inl e, sc) \<longrightarrow>
            get_instance G (Suc n) s k = Some (Inl (creation_failure k e), sc) \<and> frame s sc"
    using a b by blast
  have 2: "\<forall>rank e s'. acyclic_by G s rank \<and> get_instance G (Suc n) s k = Some (Inl e, s') \<longrightarrow>
            singleton_instances s' k = singleton_instances s k \<and>
            scoped_instances s' k = scoped_instances s k"
    using d by blast
  have 3: "factory reg = None \<and> implementation reg = Some c \<and>
          params reg = lits @ (p, v) # rest \<and> (\<forall>x \<in> set lits. \<not> is_reference (snd x)) \<and>
          is_reference v \<and>
          (G (reference_name v) = None \<or>
           (\<exists>d. G (reference_name v) = Some d \<and> registrations s d = None \<and> 0 < n)) \<longrightarrow>
            get_instance G (Suc n) s k =
              Some (Inl (creation_failure k (creation_failure k (unknown_dependency G v))), s)"
    using c by blast
  from 1 2 3 show ?thesis by (intro conjI)
qed

theorem failed_build_inserts_nothing_witness:
  "get_instance module_globals (Suc (Suc 0)) audit_injector ''IEmailService'' =
     Some (Inl (creation_failure ''IEmailService''
                 (creation_failure ''IEmailService'' (dependency_not_found ''IAudit''))),
           audit_injector\<lparr>singleton_instances := [''ILogger'' \<mapsto> file_logger]\<rparr>) \<and>
   singleton_instances (audit_injector\<lparr>singleton_instances := [''ILogger'' \<mapsto> file_logger]\<rparr>)
     ''IEmailService'' = None \<and>
   get_instance module_globals (Suc (Suc 0)) orphan_injector ''IDatabase'' =
     Some (Inl (creation_failure ''IDatabase''
                 (creation_failure ''IDatabase'' (no_registration ''ILogger''))),
           orphan_injector)"
proof -
  have 1: "get_instance module_globals (Suc (Suc 0)) audit_injector ''IEmailService'' =
     Some (Inl (creation_failure ''IEmailService''
                 (creation_failure ''IEmailService'' (dependency_not_found ''IAudit''))),
           audit_injector\<lparr>singleton_instances := [''ILogger'' \<mapsto> file_logger]\<rparr>)"
    using failed_build_inserts_nothing[where s = audit_injector and k = "''IEmailService''"
        and reg = audit_reg and G = module_globals and n = "Suc 0", OF audit_injector_reg(1)]
      audit_create_fails
    by (simp add: audit_injector_reg audit_reg_def[THEN arg_cong, of life_style] Singleton_def Scoped_def
        del: get_instance.simps)
  have o: "registrations orphan_injector ''IDatabase'' = Some orphan_reg"
    "singleton_instances orphan_injector ''IDatabase'' = None"
    "registrations orphan_injector ''ILogger'' = None"
    by (simp_all add: orphan_injector_eq)
  have p: "params orphan_reg = [(''connection_string'', PyStr ''server=test'')] @ (''logger'', PyStr ''@ILogger'') # []"
    "factory orphan_reg = None" "implementation orphan_reg = Some SqlDatabase"
    "life_style orphan_reg = Singleton"
    by (simp_all add: orphan_reg_def)
  have u: "unknown_dependency module_globals (PyStr ''@ILogger'') = no_registration ''ILogger''"
    by (simp add: unknown_dependency_def module_globals_def)
  have g: "module_globals (reference_name (PyStr ''@ILogger'')) = Some ''ILogger''"
    by (simp add: module_globals_def)
  have 2: "get_instance module_globals (Suc (Suc 0)) orphan_injector ''IDatabase'' =
     Some (Inl (creation_failure ''IDatabase''
                 (creation_failure ''IDatabase'' (unknown_dependency module_globals (PyStr ''@ILogger'')))),
           orphan_injector)"
    using failed_build_inserts_nothing[where s = orphan_injector and k = "''IDatabase''"
        and reg = orphan_reg and G = module_globals and n = "Suc 0" and c = SqlDatabase
        and lits = "[(''connection_string'', PyStr ''server=test'')]" and p = "''logger''"
        and v = "PyStr ''@ILogger''" and rest = "[]", OF o(1)]
      o(2,3) p g
    by (simp add: Singleton_def Scoped_def del: get_instance.simps)
  have 3: "singleton_instances (audit_injector\<lparr>singleton_instances := [''ILogger'' \<mapsto> file_logger]\<rparr>)
      ''IEmailService'' = singleton_instances audit_injector ''IEmailService''"
    using failed_build_inserts_nothing[where s = audit_injector and k = "''IEmailService''"
        and reg = audit_reg and G = module_globals and n = "Suc 0", OF audit_injector_reg(1)]
      audit_acyclic 1
    by (simp add: audit_injector_reg audit_reg_def[THEN arg_cong, of life_style] Singleton_def Scoped_def
        del: get_instance.simps)
  from 1 2 3 u show ?thesis by (simp add: audit_injector_reg del: get_instance.simps)
qed

text \<open>
  Claim C4 as stated fails: the lookup of the email service builds and caches the logger,
  then fails on \<^verbatim>\<open>IAudit\<close>; the singleton cache has changed.
\<close>

theorem failed_build_keeps_dependency:
  "get_instance module_globals (Suc (Suc 0)) audit_injector ''IEmailService'' =
     Some (Inl (creation_failure ''IEmailService''
                 (creation_failure ''IEmailService'' (dependency_not_found ''IAudit''))),
           audit_injector\<lparr>singleton_instances := [''ILogger'' \<mapsto> file_logger]\<rparr>) \<and>
   singleton_instances audit_injector ''ILogger'' = None \<and>
   singleton_instances (audit_injector\<lparr>singleton_instances := [''ILogger'' \<mapsto> file_logger]\<rparr>) ''ILogger'' =
     Some file_logger"
proof -
  have "get_instance module_globals (Suc (Suc 0)) audit_injector ''IEmailService'' =
     Some (Inl (creation_failure ''IEmailService''
                 (creation_failure ''IEmailService'' (dependency_not_found ''IAudit''))),
           audit_injector\<lparr>singleton_instances := [''ILogger'' \<mapsto> file_logger]\<rparr>)"
    unfolding get_instance.simps(2)[of module_globals "Suc 0"]
    by (simp add: get_instance_body_def dispatch_def audit_injector_reg audit_create_fails
        audit_reg_def[THEN arg_cong, of life_style] del: get_instance.simps)
  then show ?thesis by (simp add: audit_injector_reg)
qed

subsection \<open>The scope flag\<close>

lemma step_in_scope:
  assumes "step G n s op = Some s'"
  shows "in_scope s' = flag_after (in_scope s) [op]"
proof (cases op)
  case (Register i impl l p)
  with assms show ?thesis
    by (cases "register s i impl l p") (auto dest: register_caches)
next
  case (GetInstance i)
  with assms obtain r where "get_instance G n s i = Some (r, s')" by auto
  then have "frame s s'" by (rule get_instance_frame)
  with GetInstance show ?thesis by (simp add: frame_def)
next
  case ScopeEnter
  with assms show ?thesis by (auto simp: scope_enter_def)
next
  case ScopeExit
  with assms show ?thesis by (auto simp: scope_exit_def)
qed

lemma flag_after_Cons: "flag_after b (op # ops) = flag_after (flag_after b [op]) ops"
  by (cases op) simp_all

lemma run_in_scope:
  "run G n s ops = Some s' \<Longrightarrow> in_scope s' = flag_after (in_scope s) ops"
proof (induction ops arbitrary: s)
  case Nil
  then show ?case by simp
next
  case (Cons op ops)
  then obtain s1 where s1: "step G n s op = Some s1" "run G n s1 ops = Some s'"
    by (auto split: option.splits)
  from Cons.IH[OF s1(2)] step_in_scope[OF s1(1)] show ?case
    by (simp add: flag_after_Cons[of _ op ops])
qed

text \<open>
  Claim C9, as the code has it.  The injector has one boolean scope flag.  After any
  sequence of operations the flag is what the last entry or exit made it;
  \<^verbatim>\<open>register\<close> and \<^verbatim>\<open>get_instance\<close> never change it.  An entry is accepted
  in either state, sets the flag and empties the scoped cache; an exit is accepted in
  either state and clears the flag.
\<close>

theorem scope_flag:
  assumes "run G n s ops = Some s'"
  shows "in_scope s' = flag_after (in_scope s) ops \<and>
         run G n s (ops @ [ScopeEnter]) = Some (scope_enter s') \<and> in_scope (scope_enter s') \<and>
         scoped_instances (scope_enter s') = Map.empty \<and>
         run G n s (ops @ [ScopeExit]) = Some (scope_exit s') \<and> \<not> in_scope (scope_exit s')"
proof -
  have "run G n s (ops @ more) = run G n s' more" for more
    using assms by (induction ops arbitrary: s) (auto split: option.splits)
  with run_in_scope[OF assms] show ?thesis
    by (simp add: scope_enter_def scope_exit_def)
qed

theorem scope_flag_witness:
  "run module_globals (Suc 0) dev_injector [ScopeEnter, GetInstance ''IEmailService'', ScopeEnter] =
     Some (scope_enter dev_injector) \<and>
   in_scope (scope_enter dev_injector) \<and>
   flag_after (in_scope dev_injector) [ScopeEnter, GetInstance ''IEmailService''] \<and>
   run module_globals (Suc 0) dev_injector [ScopeEnter, GetInstance ''IEmailService'', ScopeExit] =
     Some dev_injector \<and>
   \<not> in_scope dev_injector"
proof -
  have 1: "run module_globals (Suc 0) dev_injector [ScopeEnter, GetInstance ''IEmailService''] =
      Some (dev_injector\<lparr>in_scope := True,
              scoped_instances := [''IEmailService'' \<mapsto> PyObj ''MockEmailService'' []]\<rparr>)"
    by (simp add: dev_injector_eq eval_defs)
  from scope_flag[OF 1] show ?thesis
    by (simp add: scope_enter_def scope_exit_def dev_injector_eq)
qed

text \<open>
  Claim C9 as stated fails: a second scope is entered while the first is active, with
  no error, so two \<^verbatim>\<open>with\<close> blocks are open on the same injector; and the exit
  of the inner one clears the flag while the outer one is still open.
\<close>

theorem nested_scope_accepted:
  "run module_globals 0 init [ScopeEnter, ScopeEnter] = Some (scope_enter init) \<and>
   in_scope (scope_enter init) \<and>
   open_scopes [ScopeEnter, ScopeEnter] = 2 \<and>
   run module_globals 0 init [ScopeEnter, ScopeEnter, ScopeExit] = Some init \<and>
   \<not> in_scope init \<and>
   open_scopes [ScopeEnter, ScopeEnter, ScopeExit] = 1"
  by (simp add: scope_enter_def scope_exit_def init_def open_scopes_def)

subsection \<open>How often a singleton is constructed\<close>


























end
